theory Spec2Isabelle
  imports Main "HOL-Library.Sublist" "HOL-Library.Multiset"
begin

section \<open>Python strings\<close>

text \<open>
  A Python \<^verbatim>\<open>str\<close> is a sequence of Unicode code points, so a string is a list of
  code points here. The Cyrillic literals of the source are written by code point.
\<close>

type_synonym ustring = "nat list"

definition asc :: "string \<Rightarrow> ustring" where
  "asc s = map of_char s"

text \<open>The answer label: U+041E U+0442 U+0432 U+0435 U+0442 (Cyrillic) and a colon.\<close>

definition otvet :: ustring where
  "otvet = [1054, 1090, 1074, 1077, 1090, 58]"

text \<open>The topic prefix: U+0417 U+0430 U+0434 U+0430 U+043D U+0438 U+044F (Cyrillic) and a space.\<close>

definition zadaniya :: ustring where
  "zadaniya = [1047, 1072, 1076, 1072, 1085, 1080, 1103, 32]"

text \<open>The typographic minus U+2212 and the soft hyphen U+00AD.\<close>

definition minus_sign :: nat where
  "minus_sign = 8722"

definition soft_hyphen :: nat where
  "soft_hyphen = 173"

text \<open>
  \<^verbatim>\<open>str.isspace\<close> of one character: the code points CPython's
  \<^verbatim>\<open>_PyUnicode_IsWhitespace\<close> lists. \<^verbatim>\<open>str.split()\<close> and \<^verbatim>\<open>str.strip()\<close> use it.
\<close>

definition isspace :: "nat \<Rightarrow> bool" where
  "isspace c \<longleftrightarrow>
     (9 \<le> c \<and> c \<le> 13) \<or> (28 \<le> c \<and> c \<le> 32) \<or> c = 133 \<or> c = 160 \<or> c = 5760 \<or>
     (8192 \<le> c \<and> c \<le> 8202) \<or> c = 8232 \<or> c = 8233 \<or> c = 8239 \<or> c = 8287 \<or> c = 12288"

text \<open>\<^verbatim>\<open>s.startswith(p)\<close>.\<close>

fun startswith :: "'a list \<Rightarrow> 'a list \<Rightarrow> bool" where
  "startswith s [] = True"
| "startswith [] (p # ps) = False"
| "startswith (c # s) (p # ps) = (c = p \<and> startswith s ps)"

text \<open>\<^verbatim>\<open>sub in s\<close>: \<^verbatim>\<open>sub\<close> occurs in \<^verbatim>\<open>s\<close> as a contiguous substring.\<close>

fun contains :: "'a list \<Rightarrow> 'a list \<Rightarrow> bool" where
  "contains [] sub = (sub = [])"
| "contains (c # s) sub = (startswith (c # s) sub \<or> contains s sub)"

text \<open>
  \<^verbatim>\<open>s.replace(old, new)\<close>: every occurrence of \<^verbatim>\<open>old\<close>, found from the left and
  without overlap, becomes \<^verbatim>\<open>new\<close>. With an empty \<^verbatim>\<open>old\<close> Python puts \<^verbatim>\<open>new\<close>
  before every character and at the end.
\<close>

function replace :: "'a list \<Rightarrow> 'a list \<Rightarrow> 'a list \<Rightarrow> 'a list" where
  "replace [] old new = (if old = [] then new else [])"
| "replace (c # s) old new =
     (if old = [] then new @ c # replace s old new
      else if startswith (c # s) old then new @ replace (drop (length old) (c # s)) old new
      else c # replace s old new)"
  by pat_completeness auto
termination
  by (relation "measure (\<lambda>(s, old, new). length s)") auto

text \<open>
  \<^verbatim>\<open>s.split(sep)\<close> with a non-empty separator: the pieces between the occurrences of
  \<^verbatim>\<open>sep\<close>, found from the left and without overlap; one piece more than there are
  occurrences. \<^verbatim>\<open>split_from cur s sep\<close> carries the piece being read. (Python raises
  ValueError on an empty separator; the source only passes literals.)
\<close>

function split_from :: "'a list \<Rightarrow> 'a list \<Rightarrow> 'a list \<Rightarrow> 'a list list" where
  "split_from cur [] sep = [cur]"
| "split_from cur (c # s) sep =
     (if sep \<noteq> [] \<and> startswith (c # s) sep
      then cur # split_from [] (drop (length sep) (c # s)) sep
      else split_from (cur @ [c]) s sep)"
  by pat_completeness auto
termination
  by (relation "measure (\<lambda>(cur, s, sep). length s)") auto

definition split_sep :: "'a list \<Rightarrow> 'a list \<Rightarrow> 'a list list" where
  "split_sep s sep = split_from [] s sep"

text \<open>
  \<^verbatim>\<open>s.split()\<close>: the maximal runs of non-whitespace characters, in order; no empty
  piece. \<^verbatim>\<open>words_from cur s\<close> carries the run being read.
\<close>

fun words_from :: "ustring \<Rightarrow> ustring \<Rightarrow> ustring list" where
  "words_from cur [] = (if cur = [] then [] else [cur])"
| "words_from cur (c # s) =
     (if isspace c then (if cur = [] then words_from [] s else cur # words_from [] s)
      else words_from (cur @ [c]) s)"

definition split_ws :: "ustring \<Rightarrow> ustring list" where
  "split_ws s = words_from [] s"

text \<open>\<^verbatim>\<open>s.lstrip(chars)\<close> drops leading characters as long as they belong to \<^verbatim>\<open>chars\<close>.\<close>

definition lstrip_chars :: "'a list \<Rightarrow> 'a list \<Rightarrow> 'a list" where
  "lstrip_chars s chars = dropWhile (\<lambda>c. c \<in> set chars) s"

text \<open>\<^verbatim>\<open>s.strip()\<close> drops whitespace at both ends.\<close>

definition strip :: "ustring \<Rightarrow> ustring" where
  "strip s = rev (dropWhile isspace (rev (dropWhile isspace s)))"

text \<open>\<^verbatim>\<open>str(n)\<close> of an integer: its decimal digits, after a minus sign when negative.\<close>

function digits_of :: "nat \<Rightarrow> ustring" where
  "digits_of n = (if n < 10 then [48 + n] else digits_of (n div 10) @ [48 + n mod 10])"
  by pat_completeness auto
termination
  by (relation "measure id") auto

definition str_int :: "int \<Rightarrow> ustring" where
  "str_int i = (if i < 0 then 45 # digits_of (nat (- i)) else digits_of (nat i))"


section \<open>Exceptions\<close>

text \<open>
  Every exception the source can raise is a value. \<open>ClientError\<close> stands for what the
  HTTP session raises (a network failure, or \<^verbatim>\<open>raise_for_status\<close> on a status that is
  not a success); \<open>ExternalError\<close> for what the SVG rasteriser, the image loader or
  the recognition model raise.
\<close>

datatype error =
  RuntimeError | AttributeError | IndexError | KeyError | ValueError
  | ClientError | ExternalError

section \<open>The document tree\<close>

text \<open>
  The tree \<^verbatim>\<open>bs4.BeautifulSoup(markup, "lxml")\<close> builds. \<open>Str\<close> is a
  \<^verbatim>\<open>NavigableString\<close> (or \<^verbatim>\<open>CData\<close>): the strings \<^verbatim>\<open>.text\<close> and \<^verbatim>\<open>get_text\<close>
  collect. \<open>Special\<close> is a string of another class (a comment, a doctype, the content
  of a script or a style element), which they skip. \<open>Tag\<close> holds the tag name, the
  attributes in the order of the source (each key once) and the contents.
\<close>

datatype node =
  Str ustring
  | Special ustring
  | Tag ustring "(ustring \<times> ustring) list" "node list"

text \<open>A position in a tree: the child indices from the root down.\<close>

type_synonym path = "nat list"

text \<open>
  The descendants of a tag in document order (pre-order, the tag itself excluded), each
  with its position relative to the tag: what \<^verbatim>\<open>find_all\<close> walks.
\<close>

fun descendants :: "node \<Rightarrow> (path \<times> node) list"
  and descendants_from :: "nat \<Rightarrow> node list \<Rightarrow> (path \<times> node) list" where
  "descendants (Str s) = []"
| "descendants (Special s) = []"
| "descendants (Tag n attrs cs) = descendants_from 0 cs"
| "descendants_from i [] = []"
| "descendants_from i (c # cs) =
     ([i], c) # map (\<lambda>(p, d). (i # p, d)) (descendants c) @ descendants_from (Suc i) cs"

text \<open>
  \<^verbatim>\<open>tag.get(key)\<close> on the attributes; \<^verbatim>\<open>tag[key]\<close> raises KeyError where \<^verbatim>\<open>get\<close>
  gives None.
\<close>

definition attr_get :: "node \<Rightarrow> ustring \<Rightarrow> ustring option" where
  "attr_get t key = (case t of Tag n attrs cs \<Rightarrow> map_of attrs key | _ \<Rightarrow> None)"

definition attr_item :: "node \<Rightarrow> ustring \<Rightarrow> error + ustring" where
  "attr_item t key = (case attr_get t key of None \<Rightarrow> Inl KeyError | Some v \<Rightarrow> Inr v)"

text \<open>
  The search criteria of \<^verbatim>\<open>find_all(name, class_=c)\<close>: a tag of that name whose
  \<^verbatim>\<open>class\<close> attribute, split at whitespace as bs4 stores it, has \<^verbatim>\<open>c\<close> among its
  tokens. \<open>None\<close> for the class is a search by name alone.
\<close>

definition matches :: "ustring \<Rightarrow> ustring option \<Rightarrow> node \<Rightarrow> bool" where
  "matches name cls t =
     (case t of
        Tag n attrs cs \<Rightarrow>
          n = name \<and>
          (case cls of
             None \<Rightarrow> True
           | Some c \<Rightarrow> (case map_of attrs (asc ''class'') of
                          None \<Rightarrow> False
                        | Some v \<Rightarrow> c \<in> set (split_ws v)))
      | _ \<Rightarrow> False)"

definition find_all :: "node \<Rightarrow> ustring \<Rightarrow> ustring option \<Rightarrow> (path \<times> node) list" where
  "find_all t name cls = filter (\<lambda>(p, d). matches name cls d) (descendants t)"

text \<open>\<^verbatim>\<open>find\<close> is the first result of \<^verbatim>\<open>find_all\<close>, or None.\<close>

definition find :: "node \<Rightarrow> ustring \<Rightarrow> ustring option \<Rightarrow> (path \<times> node) option" where
  "find t name cls = (case find_all t name cls of [] \<Rightarrow> None | r # rs \<Rightarrow> Some r)"

text \<open>\<^verbatim>\<open>tag.text\<close>: the \<open>Str\<close> strings below the tag, concatenated in document order.\<close>

fun get_text :: "node \<Rightarrow> ustring" where
  "get_text (Str s) = s"
| "get_text (Special s) = []"
| "get_text (Tag n attrs cs) = concat (map get_text cs)"

text \<open>
  \<^verbatim>\<open>tag.get_text(strip=True)\<close>: each string is stripped, the empty ones are dropped,
  and the rest is joined with the empty separator.
\<close>

fun get_text_strip :: "node \<Rightarrow> ustring" where
  "get_text_strip (Str s) = strip s"
| "get_text_strip (Special s) = []"
| "get_text_strip (Tag n attrs cs) = concat (map get_text_strip cs)"

text \<open>The node at a position, and a tree with the node at a position changed.\<close>

fun subtree :: "node \<Rightarrow> path \<Rightarrow> node option" where
  "subtree t [] = Some t"
| "subtree (Tag n attrs cs) (i # p) = (if i < length cs then subtree (cs ! i) p else None)"
| "subtree (Str s) (i # p) = None"
| "subtree (Special s) (i # p) = None"

fun update_at :: "path \<Rightarrow> (node \<Rightarrow> node) \<Rightarrow> node \<Rightarrow> node" where
  "update_at [] f t = f t"
| "update_at (i # p) f (Tag n attrs cs) =
     (if i < length cs then Tag n attrs (cs[i := update_at p f (cs ! i)]) else Tag n attrs cs)"
| "update_at (i # p) f (Str s) = Str s"
| "update_at (i # p) f (Special s) = Special s"

text \<open>
  \<^verbatim>\<open>tag[key] = v\<close> for a key the tag has (the source reads \<^verbatim>\<open>tag[key]\<close> first):
  the value changes, the key keeps its place.
\<close>

definition attr_set :: "ustring \<Rightarrow> ustring \<Rightarrow> node \<Rightarrow> node" where
  "attr_set key v t =
     (case t of
        Tag n attrs cs \<Rightarrow> Tag n (map (\<lambda>(k, w). if k = key then (k, v) else (k, w)) attrs) cs
      | _ \<Rightarrow> t)"


text \<open>The node at a position that exists (the tree itself at one that does not).\<close>

definition node_at :: "node \<Rightarrow> path \<Rightarrow> node" where
  "node_at t p = (case subtree t p of Some d \<Rightarrow> d | None \<Rightarrow> t)"

section \<open>The collaborators of the client\<close>

text \<open>
  What the client calls and this repository does not define is a field of \<open>env\<close>:
  \<^item> \<open>http_get url params\<close>: the body of the response to a GET request of the session,
    or the exception \<^verbatim>\<open>_get\<close> lets through;
  \<^item> \<open>parse_html\<close>: \<^verbatim>\<open>bs4.BeautifulSoup(markup=html, features="lxml")\<close>;
  \<^item> \<open>urljoin\<close>: \<^verbatim>\<open>urllib.parse.urljoin\<close>;
  \<^item> \<open>svg_to_image\<close>: \<^verbatim>\<open>svg2png\<close> followed by \<^verbatim>\<open>Image.open\<close>;
  \<^item> \<open>latex_ocr\<close>: the \<^verbatim>\<open>LatexOCR\<close> model of pix2tex, \<open>None\<close> when the package cannot
    be imported;
  \<^item> \<open>nfkc\<close>: \<^verbatim>\<open>unicodedata.normalize("NFKC", _)\<close>;
  \<^item> \<open>decimal_value\<close>: the value of a code point as a decimal digit, which \<^verbatim>\<open>int\<close>
    reads; \<open>is_digit\<close>: \<^verbatim>\<open>str.isdigit\<close> of one character;
  \<^item> \<open>to_str\<close>: \<^verbatim>\<open>str(tag)\<close>, the markup bs4 writes for a tree.
\<close>

record env =
  http_get :: "ustring \<Rightarrow> (ustring \<times> ustring) list \<Rightarrow> error + ustring"
  parse_html :: "ustring \<Rightarrow> node"
  urljoin :: "ustring \<Rightarrow> ustring \<Rightarrow> ustring"
  svg_to_image :: "ustring \<Rightarrow> error + ustring"
  latex_ocr :: "(ustring \<Rightarrow> error + ustring) option"
  nfkc :: "ustring \<Rightarrow> ustring"
  decimal_value :: "nat \<Rightarrow> nat option"
  is_digit :: "nat \<Rightarrow> bool"
  to_str :: "node \<Rightarrow> ustring"

text \<open>\<^verbatim>\<open>s.isdigit()\<close>: not empty, and every character a digit.\<close>

definition isdigit :: "env \<Rightarrow> ustring \<Rightarrow> bool" where
  "isdigit E s \<longleftrightarrow> s \<noteq> [] \<and> list_all (is_digit E) s"

text \<open>
  \<^verbatim>\<open>int(s)\<close>: whitespace around is dropped, one sign may lead, and the rest is decimal
  digits, in groups that single underscores may separate; ValueError otherwise.
\<close>

definition digit_of :: "env \<Rightarrow> nat \<Rightarrow> nat" where
  "digit_of E c = (case decimal_value E c of Some d \<Rightarrow> d | None \<Rightarrow> 0)"

definition py_int :: "env \<Rightarrow> ustring \<Rightarrow> error + int" where
  "py_int E s =
     (let t = strip s;
          signed = (t \<noteq> [] \<and> (hd t = 45 \<or> hd t = 43));
          body = (if signed then tl t else t);
          groups = split_sep body [95];
          n = int (foldl (\<lambda>a c. 10 * a + digit_of E c) 0 (concat groups))
      in if list_all (\<lambda>g. g \<noteq> [] \<and> list_all (\<lambda>c. decimal_value E c \<noteq> None) g) groups
         then Inr (if t \<noteq> [] \<and> hd t = 45 then - n else n)
         else Inl ValueError)"

text \<open>A list comprehension whose element expression can raise: the first exception wins.\<close>

fun map_err :: "('a \<Rightarrow> error + 'b) \<Rightarrow> 'a list \<Rightarrow> error + 'b list" where
  "map_err f [] = Inr []"
| "map_err f (x # xs) =
     (case f x of
        Inl e \<Rightarrow> Inl e
      | Inr y \<Rightarrow> (case map_err f xs of Inl e \<Rightarrow> Inl e | Inr ys \<Rightarrow> Inr (y # ys)))"

section \<open>The client\<close>

text \<open>
  The fields of \<^verbatim>\<open>SdamGIA\<close> that the decorator saves and restores. \<^verbatim>\<open>GitType\<close> and
  \<^verbatim>\<open>Subject\<close> are declared in a module that is not part of the sources at hand; a
  value of either is kept as the text an f-string prints for it.
\<close>

record client =
  gia_type :: ustring
  subject :: "ustring option"

definition BASE_DOMAIN :: ustring where
  "BASE_DOMAIN = asc ''sdamgia.ru''"

definition base_url :: "client \<Rightarrow> ustring" where
  "base_url self =
     asc ''https://'' @ (case subject self of None \<Rightarrow> asc ''None'' | Some s \<Rightarrow> s)
       @ asc ''-'' @ gia_type self @ asc ''.'' @ BASE_DOMAIN"

text \<open>
  \<^verbatim>\<open>handle_params\<close>, the decorator of every public method. The two keyword arguments
  are \<open>None\<close> when the caller does not pass them. An exception of the method leaves the
  wrapper at the \<^verbatim>\<open>await\<close>: the two assignments after it do not run.
\<close>

definition handle_params ::
  "(client \<Rightarrow> error + 'a) \<Rightarrow> ustring option \<Rightarrow> ustring option \<Rightarrow> client \<Rightarrow> (error + 'a) \<times> client" where
  "handle_params method kw_gia_type kw_subject self =
     (let save_gia_type = gia_type self;
          save_subject = subject self;
          self1 = (case kw_gia_type of None \<Rightarrow> self | Some g \<Rightarrow> self\<lparr>gia_type := g\<rparr>);
          self2 = (case kw_subject of None \<Rightarrow> self1 | Some s \<Rightarrow> self1\<lparr>subject := Some s\<rparr>)
      in case method self2 of
           Inl e \<Rightarrow> (Inl e, self2)
         | Inr result \<Rightarrow> (Inr result, self2\<lparr>gia_type := save_gia_type, subject := save_subject\<rparr>))"

text \<open>
  \<^verbatim>\<open>_get\<close>: the URL is the one given, or the path joined to the base URL when none (or
  an empty one) is given.
\<close>

definition priv_get ::
  "env \<Rightarrow> client \<Rightarrow> ustring \<Rightarrow> ustring option \<Rightarrow> (ustring \<times> ustring) list \<Rightarrow> error + ustring" where
  "priv_get E self pth url params =
     http_get E
       (case url of
          None \<Rightarrow> urljoin E (base_url self) pth
        | Some u \<Rightarrow> if u = [] then urljoin E (base_url self) pth else u)
       params"

definition get_image_from_url :: "env \<Rightarrow> client \<Rightarrow> ustring option \<Rightarrow> error + ustring" where
  "get_image_from_url E self url =
     (case priv_get E self [] url [] of
        Inl e \<Rightarrow> Inl e
      | Inr byte_string \<Rightarrow> svg_to_image E byte_string)"

text \<open>
  \<^verbatim>\<open>image_to_tex\<close>: the model is built at the first call and kept; \<open>latex_ocr\<close> is
  the model once built, so the model keeps no state for it. The result is the
  recognised text between two dollar signs.
\<close>

definition image_to_tex :: "env \<Rightarrow> ustring \<Rightarrow> error + ustring" where
  "image_to_tex E img =
     (case latex_ocr E of
        None \<Rightarrow> Inl RuntimeError
      | Some model \<Rightarrow> (case model img of Inl e \<Rightarrow> Inl e | Inr t \<Rightarrow> Inr ([36] @ t @ [36])))"

text \<open>
  \<^verbatim>\<open>get_latex_from_url_list\<close>: the images are fetched first (the tasks are gathered;
  here, in the order of the list), then recognised in order. The result is the
  dictionary as the list of its items; a later item of the same key overrides.
\<close>

definition get_latex_from_url_list ::
  "env \<Rightarrow> client \<Rightarrow> ustring option list \<Rightarrow> error + (ustring option \<times> ustring) list" where
  "get_latex_from_url_list E self image_links =
     (case map_err (get_image_from_url E self) image_links of
        Inl e \<Rightarrow> Inl e
      | Inr images_data \<Rightarrow>
          (case map_err (image_to_tex E) images_data of
             Inl e \<Rightarrow> Inl e
           | Inr string_tex_list \<Rightarrow> Inr (zip image_links string_tex_list)))"

definition dict_get :: "('k \<times> 'v) list \<Rightarrow> 'k \<Rightarrow> 'v option" where
  "dict_get items k = map_of (rev items) k"


section \<open>Problems\<close>

text \<open>
  \<^verbatim>\<open>ProblemPart\<close> and \<^verbatim>\<open>Problem\<close> (the field \<^verbatim>\<open>text\<close> is \<open>part_text\<close> here). A formula
  image without \<^verbatim>\<open>src\<close> puts \<^verbatim>\<open>None\<close> into \<^verbatim>\<open>image_links\<close>, so its entries are
  options.
\<close>

record problem_part =
  part_text :: ustring
  html :: ustring
  image_links :: "ustring option list"

record problem =
  p_gia_type :: ustring
  p_subject :: "ustring option"
  problem_id :: int
  condition :: "problem_part option"
  solution :: "problem_part option"
  answer :: ustring
  topic_id :: "int option"
  analogs :: "int list"

text \<open>
  The loop of \<^verbatim>\<open>_get_problem_part\<close> that puts the recognised text in the place of each
  formula image. The images are the ones \<^verbatim>\<open>find_all\<close> listed before the loop;
  \<^verbatim>\<open>replace_with(None)\<close> raises ValueError.
\<close>

fun replace_images ::
  "(ustring option \<times> ustring) list \<Rightarrow> (path \<times> node) list \<Rightarrow> node \<Rightarrow> error + node" where
  "replace_images recognized_texts [] tag = Inr tag"
| "replace_images recognized_texts ((q, img_tag) # rest) tag =
     (case dict_get recognized_texts (attr_get img_tag (asc ''src'')) of
        None \<Rightarrow> Inl ValueError
      | Some t \<Rightarrow> replace_images recognized_texts rest (update_at q (\<lambda>old. Str t) tag))"

text \<open>The loop that appends the links of the images not yet listed.\<close>

fun add_links :: "(path \<times> node) list \<Rightarrow> ustring option list \<Rightarrow> ustring option list" where
  "add_links [] links = links"
| "add_links ((q, img) # rest) links =
     add_links rest
       (case attr_get img (asc ''src'') of
          None \<Rightarrow> links
        | Some link \<Rightarrow> if Some link \<notin> set links then links @ [Some link] else links)"

text \<open>The two replacements and the normalisation of the recognised text.\<close>

definition normalize_text :: "env \<Rightarrow> ustring \<Rightarrow> ustring" where
  "normalize_text E s = nfkc E (replace (replace s [minus_sign] [45]) [soft_hyphen] [])"

text \<open>
  \<^verbatim>\<open>_get_problem_part\<close>. The tag is \<open>None\<close> when the caller found none: the first
  attribute access raises AttributeError. The function changes the tag in place when it
  recognises text, so it returns the tag as it leaves it, beside the part.
\<close>

definition priv_get_problem_part ::
  "env \<Rightarrow> client \<Rightarrow> node option \<Rightarrow> bool \<Rightarrow> error + (problem_part \<times> node)" where
  "priv_get_problem_part E self tag_opt recognize_text =
     (case tag_opt of
        None \<Rightarrow> Inl AttributeError
      | Some tag \<Rightarrow>
          let tex = find_all tag (asc ''img'') (Some (asc ''tex''));
              links = map (\<lambda>(q, img). attr_get img (asc ''src'')) tex
          in case (if recognize_text
                   then (case get_latex_from_url_list E self links of
                           Inl e \<Rightarrow> Inl e
                         | Inr recognized_texts \<Rightarrow>
                             (case replace_images recognized_texts tex tag of
                                Inl e \<Rightarrow> Inl e
                              | Inr tag1 \<Rightarrow> Inr (normalize_text E (get_text_strip tag1), tag1)))
                   else Inr ([], tag)) of
               Inl e \<Rightarrow> Inl e
             | Inr (t, tag1) \<Rightarrow>
                 Inr (\<lparr>part_text = t, html = to_str E tag1,
                       image_links = add_links (find_all tag1 (asc ''img'') None) links\<rparr>,
                      tag1))"

text \<open>
  The loop of \<^verbatim>\<open>get_problem_by_id\<close> over the images of the problem block:
  \<^verbatim>\<open>img["src"]\<close> raises KeyError on an image without the attribute.
\<close>

fun rewrite_srcs :: "env \<Rightarrow> client \<Rightarrow> (path \<times> node) list \<Rightarrow> node \<Rightarrow> error + node" where
  "rewrite_srcs E self [] block = Inr block"
| "rewrite_srcs E self ((q, img) # rest) block =
     (case attr_item img (asc ''src'') of
        Inl e \<Rightarrow> Inl e
      | Inr src \<Rightarrow>
          rewrite_srcs E self rest
            (if \<not> contains src BASE_DOMAIN
             then update_at q (attr_set (asc ''src'') (urljoin E (base_url self) src)) block
             else block))"

text \<open>
  \<^verbatim>\<open>try: ... except (es): default\<close>: an exception of the listed classes gives
  \<open>None\<close> (the caller puts its default), any other exception goes on.
\<close>

definition try_except :: "error list \<Rightarrow> error + 'a \<Rightarrow> error + 'a option" where
  "try_except es r =
     (case r of
        Inl e \<Rightarrow> if e \<in> set es then Inr None else Inl e
      | Inr v \<Rightarrow> Inr (Some v))"

text \<open>
  The statements of each \<^verbatim>\<open>try\<close> block of \<^verbatim>\<open>get_problem_by_id\<close>, before its
  \<^verbatim>\<open>except\<close> clause. \<open>doc\<close> is the soup and \<open>bp\<close> the position of the problem block
  in it; a block that recognises text changes tags in place, so it returns the soup as
  it leaves it.
\<close>

definition topic_id_expr :: "env \<Rightarrow> node \<Rightarrow> error + int" where
  "topic_id_expr E problem_block =
     (case find problem_block (asc ''span'') (Some (asc ''prob_nums'')) of
        None \<Rightarrow> Inl AttributeError
      | Some (q, sp) \<Rightarrow>
          (case split_ws (get_text sp) of
             a # b # rest \<Rightarrow> py_int E b
           | _ \<Rightarrow> Inl IndexError))"

definition condition_expr ::
  "env \<Rightarrow> client \<Rightarrow> node \<Rightarrow> bool \<Rightarrow> error + (problem_part \<times> node)" where
  "condition_expr E self doc recognize_text =
     (let condition_tag = find doc (asc ''div'') (Some (asc ''pbody''))
      in case priv_get_problem_part E self (map_option snd condition_tag) recognize_text of
           Inl e \<Rightarrow> Inl e
         | Inr (part, tag1) \<Rightarrow>
             Inr (part,
                  (case condition_tag of
                     None \<Rightarrow> doc
                   | Some (cp, c) \<Rightarrow> update_at cp (\<lambda>old. tag1) doc)))"

definition solution_tag_expr :: "node \<Rightarrow> error + (path \<times> node)" where
  "solution_tag_expr problem_block =
     (case find problem_block (asc ''div'') (Some (asc ''solution'')) of
        Some r \<Rightarrow> Inr r
      | None \<Rightarrow>
          (case find_all problem_block (asc ''div'') (Some (asc ''pbody'')) of
             a # b # rest \<Rightarrow> Inr b
           | _ \<Rightarrow> Inl IndexError))"

definition solution_expr ::
  "env \<Rightarrow> client \<Rightarrow> node \<Rightarrow> path \<Rightarrow> bool \<Rightarrow> error + (problem_part \<times> node)" where
  "solution_expr E self doc bp recognize_text =
     (case solution_tag_expr (node_at doc bp) of
        Inl e \<Rightarrow> Inl e
      | Inr (sp, solution_tag) \<Rightarrow>
          (case priv_get_problem_part E self (Some solution_tag) recognize_text of
             Inl e \<Rightarrow> Inl e
           | Inr (part, tag1) \<Rightarrow> Inr (part, update_at (bp @ sp) (\<lambda>old. tag1) doc)))"

definition answer_expr :: "node \<Rightarrow> error + ustring" where
  "answer_expr problem_block =
     (case find problem_block (asc ''div'') (Some (asc ''answer'')) of
        None \<Rightarrow> Inl AttributeError
      | Some (q, a) \<Rightarrow> Inr (strip (lstrip_chars (get_text a) otvet)))"

text \<open>The two statements that build \<^verbatim>\<open>analogs\<close>; no \<^verbatim>\<open>try\<close> surrounds them.\<close>

definition analogs_expr :: "env \<Rightarrow> node \<Rightarrow> int \<Rightarrow> error + int list" where
  "analogs_expr E problem_block pid =
     (case find problem_block (asc ''div'') (Some (asc ''minor'')) of
        None \<Rightarrow> Inl AttributeError
      | Some (q, minor) \<Rightarrow>
          (case map_err (\<lambda>(r, link). attr_item link (asc ''href''))
                  (find_all minor (asc ''a'') None) of
             Inl e \<Rightarrow> Inl e
           | Inr hrefs \<Rightarrow>
               (case map_err (py_int E)
                       (filter (isdigit E)
                          (map (\<lambda>h. replace h (asc ''/problem?id='') [])
                             (filter (\<lambda>h. \<not> contains h (str_int pid)) hrefs))) of
                  Inl e \<Rightarrow> Inl e
                | Inr ns \<Rightarrow> Inr (sort ns))))"

text \<open>
  The body of \<^verbatim>\<open>get_problem_by_id\<close>. The problem block is read from the soup at its
  position wherever the source reads \<^verbatim>\<open>problem_block\<close>.
\<close>

definition get_problem_by_id_body :: "env \<Rightarrow> int \<Rightarrow> bool \<Rightarrow> client \<Rightarrow> error + problem" where
  "get_problem_by_id_body E pid recognize_text self =
     (case priv_get E self (asc ''/problem?id='' @ str_int pid) None [] of
        Inl e \<Rightarrow> Inl e
      | Inr page \<Rightarrow>
     (let doc = parse_html E page in
      case find doc (asc ''div'') (Some (asc ''prob_maindiv'')) of
        None \<Rightarrow> Inl RuntimeError
      | Some (bp, block) \<Rightarrow>
     (case rewrite_srcs E self (find_all block (asc ''img'') None) block of
        Inl e \<Rightarrow> Inl e
      | Inr block1 \<Rightarrow>
     (let doc1 = update_at bp (\<lambda>old. block1) doc in
      case try_except [IndexError, AttributeError, ValueError] (topic_id_expr E block1) of
        Inl e \<Rightarrow> Inl e
      | Inr tid \<Rightarrow>
     (case try_except [IndexError, AttributeError] (condition_expr E self doc1 recognize_text) of
        Inl e \<Rightarrow> Inl e
      | Inr c \<Rightarrow>
     (let doc2 = (case c of None \<Rightarrow> doc1 | Some (part, d) \<Rightarrow> d) in
      case try_except [IndexError, AttributeError] (solution_expr E self doc2 bp recognize_text) of
        Inl e \<Rightarrow> Inl e
      | Inr s \<Rightarrow>
     (let doc3 = (case s of None \<Rightarrow> doc2 | Some (part, d) \<Rightarrow> d) in
      case try_except [IndexError, AttributeError] (answer_expr (node_at doc3 bp)) of
        Inl e \<Rightarrow> Inl e
      | Inr a \<Rightarrow>
     (case analogs_expr E (node_at doc3 bp) pid of
        Inl e \<Rightarrow> Inl e
      | Inr ns \<Rightarrow>
          Inr \<lparr>p_gia_type = gia_type self, p_subject = subject self, problem_id = pid,
               condition = map_option fst c, solution = map_option fst s,
               answer = (case a of None \<Rightarrow> [] | Some t \<Rightarrow> t), topic_id = tid,
               analogs = ns\<rparr>))))))))"

definition get_problem_by_id ::
  "env \<Rightarrow> int \<Rightarrow> bool \<Rightarrow> ustring option \<Rightarrow> ustring option \<Rightarrow> client \<Rightarrow> (error + problem) \<times> client" where
  "get_problem_by_id E pid recognize_text kw_gia_type kw_subject self =
     handle_params (get_problem_by_id_body E pid recognize_text) kw_gia_type kw_subject self"

section \<open>Listings\<close>

text \<open>\<^verbatim>\<open>int(i.text.split()[-1])\<close>: IndexError when the text has no word.\<close>

definition last_int :: "env \<Rightarrow> node \<Rightarrow> error + int" where
  "last_int E i =
     (case split_ws (get_text i) of
        [] \<Rightarrow> Inl IndexError
      | w # ws \<Rightarrow> py_int E (last (w # ws)))"

text \<open>
  One pass of the loop of \<^verbatim>\<open>search\<close> up to the test: the request of a page and the
  ids read from it.
\<close>

definition search_page :: "env \<Rightarrow> client \<Rightarrow> ustring \<Rightarrow> nat \<Rightarrow> error + int list" where
  "search_page E self query page =
     (case priv_get E self (asc ''/search'') None
             [(asc ''search'', query), (asc ''page'', str_int (int page))] of
        Inl e \<Rightarrow> Inl e
      | Inr body \<Rightarrow>
          map_err (\<lambda>(q, i). last_int E i)
            (find_all (parse_html E body) (asc ''span'') (Some (asc ''prob_nums''))))"

text \<open>
  The loop of \<^verbatim>\<open>search\<close>. It has no bound, so it is a partial function: \<open>None\<close> is a
  loop that never ends. Beside the result the model returns \<open>fetched\<close>, the numbers of
  the pages requested so far, in order: the source has no such variable, it is kept so
  that what is requested can be stated.
\<close>

partial_function (option) search_loop ::
  "env \<Rightarrow> client \<Rightarrow> ustring \<Rightarrow> nat \<Rightarrow> int list \<Rightarrow> nat list
     \<Rightarrow> ((error + int list) \<times> nat list) option" where
  "search_loop E self query page problem_ids fetched =
     (case search_page E self query page of
        Inl e \<Rightarrow> Some (Inl e, fetched @ [page])
      | Inr ids \<Rightarrow>
          if ids = [] then Some (Inr problem_ids, fetched @ [page])
          else search_loop E self query (page + 1) (problem_ids @ ids) (fetched @ [page]))"

declare search_loop.simps [code]

definition search_body :: "env \<Rightarrow> ustring \<Rightarrow> client \<Rightarrow> ((error + int list) \<times> nat list) option" where
  "search_body E query self = search_loop E self query 1 [] []"

text \<open>\<^verbatim>\<open>get_test_by_id\<close>: one request.\<close>

definition get_test_by_id_body :: "env \<Rightarrow> int \<Rightarrow> client \<Rightarrow> error + int list" where
  "get_test_by_id_body E test_id self =
     (case priv_get E self (asc ''/test?id='' @ str_int test_id) None [] of
        Inl e \<Rightarrow> Inl e
      | Inr body \<Rightarrow>
          map_err (\<lambda>(q, i). last_int E i)
            (find_all (parse_html E body) (asc ''span'') (Some (asc ''prob_nums''))))"

text \<open>\<^verbatim>\<open>i.find("a").text\<close>: AttributeError when the span has no link.\<close>

definition link_text :: "node \<Rightarrow> error + ustring" where
  "link_text i =
     (case find i (asc ''a'') None of
        None \<Rightarrow> Inl AttributeError
      | Some (q, a) \<Rightarrow> Inr (get_text a))"

text \<open>
  One pass of the loop of \<^verbatim>\<open>get_theme_by_id\<close> up to the test: the request of a page
  and the spans found in it.
\<close>

definition theme_spans :: "env \<Rightarrow> client \<Rightarrow> int \<Rightarrow> nat \<Rightarrow> error + (path \<times> node) list" where
  "theme_spans E self theme_id page =
     (case priv_get E self (asc ''/test'') None
             [(asc ''theme'', str_int theme_id), (asc ''page'', str_int (int page))] of
        Inl e \<Rightarrow> Inl e
      | Inr body \<Rightarrow> Inr (find_all (parse_html E body) (asc ''span'') (Some (asc ''prob_nums''))))"

text \<open>The loop of \<^verbatim>\<open>get_theme_by_id\<close>, with the same \<open>fetched\<close>.\<close>

partial_function (option) theme_loop ::
  "env \<Rightarrow> client \<Rightarrow> int \<Rightarrow> nat \<Rightarrow> ustring list \<Rightarrow> nat list
     \<Rightarrow> ((error + ustring list) \<times> nat list) option" where
  "theme_loop E self theme_id page problem_ids fetched =
     (case theme_spans E self theme_id page of
        Inl e \<Rightarrow> Some (Inl e, fetched @ [page])
      | Inr ids \<Rightarrow>
          if ids = [] then Some (Inr problem_ids, fetched @ [page])
          else (case map_err (\<lambda>(q, i). link_text i) ids of
                  Inl e \<Rightarrow> Some (Inl e, fetched @ [page])
                | Inr ts \<Rightarrow>
                    theme_loop E self theme_id (page + 1) (problem_ids @ ts) (fetched @ [page])))"

declare theme_loop.simps [code]

definition get_theme_by_id_body ::
  "env \<Rightarrow> int \<Rightarrow> client \<Rightarrow> ((error + ustring list) \<times> nat list) option" where
  "get_theme_by_id_body E theme_id self = theme_loop E self theme_id 1 [] []"

text \<open>The ids a page of a theme yields: the text of the link of each span.\<close>

definition theme_page :: "env \<Rightarrow> client \<Rightarrow> int \<Rightarrow> nat \<Rightarrow> error + ustring list" where
  "theme_page E self theme_id page =
     (case theme_spans E self theme_id page of
        Inl e \<Rightarrow> Inl e
      | Inr ids \<Rightarrow> map_err (\<lambda>(q, i). link_text i) ids)"

section \<open>The catalog\<close>

record catalog_entry =
  cat_topic_id :: ustring
  topic_name :: ustring
  categories :: "(ustring \<times> ustring) list"

text \<open>
  The first loop of \<^verbatim>\<open>get_catalog\<close>. \<^verbatim>\<open>i["data-id"]\<close> raises KeyError on a tag
  without the attribute, and the \<^verbatim>\<open>except\<close> clause names IndexError.
\<close>

fun collect_catalog :: "(path \<times> node) list \<Rightarrow> node list \<Rightarrow> error + node list" where
  "collect_catalog [] catalog = Inr catalog"
| "collect_catalog ((q, i) # rest) catalog =
     (case attr_item i (asc ''data-id'') of
        Inl e \<Rightarrow> if e = IndexError then collect_catalog rest (catalog @ [i]) else Inl e
      | Inr v \<Rightarrow> collect_catalog rest catalog)"

text \<open>One element of the list of categories of a topic.\<close>

definition category_entry :: "node \<Rightarrow> error + (ustring \<times> ustring)" where
  "category_entry i =
     (case attr_item i (asc ''data-id'') of
        Inl e \<Rightarrow> Inl e
      | Inr category_id \<Rightarrow>
          (case find i (asc ''a'') (Some (asc ''cat_name'')) of
             None \<Rightarrow> Inl AttributeError
           | Some (q, a) \<Rightarrow> Inr (category_id, get_text a)))"

text \<open>The body of the second loop: the entry of one topic.\<close>

definition topic_entry :: "node \<Rightarrow> error + catalog_entry" where
  "topic_entry topic =
     (case find topic (asc ''b'') (Some (asc ''cat_name'')) of
        None \<Rightarrow> Inl AttributeError
      | Some (q, b) \<Rightarrow>
          (case split_sep (get_text b) (asc ''. '') of
             t0 # t1 # rest \<Rightarrow>
               (case t0 of
                  [] \<Rightarrow> Inl IndexError
                | c # cs \<Rightarrow>
                    (let tid1 = (if c = 32 then drop 2 t0 else t0);
                         tid2 = (if startswith tid1 zadaniya then replace tid1 zadaniya [] else tid1)
                     in case find topic (asc ''div'') (Some (asc ''cat_children'')) of
                          None \<Rightarrow> Inl AttributeError
                        | Some (r, children) \<Rightarrow>
                            (case map_err (\<lambda>(p, i). category_entry i)
                                    (find_all children (asc ''div'') (Some (asc ''cat_category''))) of
                               Inl e \<Rightarrow> Inl e
                             | Inr cats \<Rightarrow>
                                 Inr \<lparr>cat_topic_id = tid2, topic_name = t1, categories = cats\<rparr>)))
           | _ \<Rightarrow> Inl IndexError))"

definition get_catalog_body :: "env \<Rightarrow> client \<Rightarrow> error + catalog_entry list" where
  "get_catalog_body E self =
     (case priv_get E self (asc ''/prob_catalog'') None [] of
        Inl e \<Rightarrow> Inl e
      | Inr body \<Rightarrow>
          (case collect_catalog
                  (find_all (parse_html E body) (asc ''div'') (Some (asc ''cat_category''))) [] of
             Inl e \<Rightarrow> Inl e
           | Inr catalog \<Rightarrow> map_err topic_entry (tl catalog)))"

definition get_catalog ::
  "env \<Rightarrow> ustring option \<Rightarrow> ustring option \<Rightarrow> client \<Rightarrow> (error + catalog_entry list) \<times> client" where
  "get_catalog E kw_gia_type kw_subject self =
     handle_params (get_catalog_body E) kw_gia_type kw_subject self"


section \<open>A site for the examples\<close>

text \<open>
  Stand-ins for the collaborators, for evaluating the client on concrete pages.
  \<^item> The Unicode tables cut down to ASCII, where the digits are \<open>0\<close> to \<open>9\<close>.
  \<^item> NFKC on strings over ASCII, U+00AD, U+2212, U+207B and U+208B: the superscript
    minus U+207B and the subscript minus U+208B have the compatibility decomposition
    U+2212; the other characters have none, and no two of them compose.
  \<^item> \<^verbatim>\<open>urljoin\<close> for a base without a path and a reference that is an absolute
    path: the reference is appended.
  \<^item> A serialiser that writes a tag with its attributes in double quotes and an empty
    \<^verbatim>\<open>img\<close> or \<^verbatim>\<open>br\<close> as a void element (no character is escaped).
  \<^item> A session that answers every request with the value of its \<^verbatim>\<open>page\<close>
    parameter (the empty string when it has none), and a parser that is given as the
    function from that body to the document.
\<close>

definition ascii_decimal :: "nat \<Rightarrow> nat option" where
  "ascii_decimal c = (if 48 \<le> c \<and> c \<le> 57 then Some (c - 48) else None)"

definition ascii_digit :: "nat \<Rightarrow> bool" where
  "ascii_digit c \<longleftrightarrow> 48 \<le> c \<and> c \<le> 57"

definition nfkc_excerpt :: "ustring \<Rightarrow> ustring" where
  "nfkc_excerpt s = map (\<lambda>c. if c = 8315 \<or> c = 8331 then 8722 else c) s"

fun render :: "node \<Rightarrow> ustring" where
  "render (Str s) = s"
| "render (Special s) = asc ''<!--'' @ s @ asc ''-->''"
| "render (Tag n attrs cs) =
     asc ''<'' @ n @ concat (map (\<lambda>(k, v). asc '' '' @ k @ [61, 34] @ v @ [34]) attrs)
     @ (if cs = [] \<and> (n = asc ''img'' \<or> n = asc ''br'') then asc ''/>''
        else asc ''>'' @ concat (map render cs) @ asc ''</'' @ n @ asc ''>'')"

definition site :: "(ustring \<Rightarrow> node) \<Rightarrow> env" where
  "site docs =
     \<lparr>http_get = (\<lambda>url params.
        Inr (case map_of params (asc ''page'') of None \<Rightarrow> [] | Some v \<Rightarrow> v)),
      parse_html = docs,
      urljoin = (\<lambda>base ref. base @ ref),
      svg_to_image = (\<lambda>byte_string. Inr byte_string),
      latex_ocr = Some (\<lambda>img. Inr (asc ''x'')),
      nfkc = nfkc_excerpt,
      decimal_value = ascii_decimal,
      is_digit = ascii_digit,
      to_str = render\<rparr>"

definition math_ege :: client where
  "math_ege = \<lparr>gia_type = asc ''ege'', subject = Some (asc ''math'')\<rparr>"

text \<open>Tags of the pages of the examples.\<close>

definition el :: "string \<Rightarrow> string \<Rightarrow> node list \<Rightarrow> node" where
  "el name cls cs = Tag (asc name) [(asc ''class'', asc cls)] cs"

definition document :: "node list \<Rightarrow> node" where
  "document cs = Tag (asc ''[document]'') [] [Tag (asc ''html'') [] [Tag (asc ''body'') [] cs]]"

definition link_to :: "string \<Rightarrow> node" where
  "link_to href = Tag (asc ''a'') [(asc ''href'', asc href)] [Str (asc ''link'')]"


text \<open>A page without the problem block.\<close>

definition page_no_container :: node where
  "page_no_container = document [el ''div'' ''content'' [Str (asc ''Not found'')]]"

text \<open>
  A problem page with the topic label, the condition and the answer, and without the
  block of related problems.
\<close>

definition page_no_related :: node where
  "page_no_related =
     document
       [el ''div'' ''prob_maindiv''
          [el ''span'' ''prob_nums'' [Str (asc ''Type 7'')],
           el ''div'' ''pbody'' [Str (asc ''2+2'')],
           el ''div'' ''answer'' [Str (otvet @ asc '' 4'')]]]"

text \<open>
  A problem page whose answer block reads the label, with no space after the colon,
  and then the word U+0432 U+0435 U+0442 U+0435 U+0440 (Cyrillic, "wind").
\<close>

definition veter :: ustring where
  "veter = [1074, 1077, 1090, 1077, 1088]"

definition page_word_answer :: node where
  "page_word_answer =
     document
       [el ''div'' ''prob_maindiv''
          [el ''div'' ''pbody'' [Str (asc ''A riddle'')],
           el ''div'' ''answer'' [Str (otvet @ veter)],
           el ''div'' ''minor'' []]]"

text \<open>
  A catalog page: the block of the page itself, which has no \<^verbatim>\<open>data-id\<close>, and one
  topic with the label "1. " followed by two Cyrillic words, holding one category.
\<close>

definition topic_label :: ustring where
  "topic_label =
     [49, 46, 32, 1040, 1083, 1075, 1077, 1073, 1088, 1072, 1080, 1095, 1077, 1089, 1082,
      1080, 1077, 32, 1074, 1099, 1088, 1072, 1078, 1077, 1085, 1080, 1103]"

definition catalog_page :: node where
  "catalog_page =
     document
       [el ''div'' ''cat_category''
          [el ''b'' ''cat_name'' [Str (asc ''Catalog'')],
           el ''div'' ''cat_children'' []],
        el ''div'' ''cat_category''
          [el ''b'' ''cat_name'' [Str topic_label],
           el ''div'' ''cat_children''
             [Tag (asc ''div'') [(asc ''class'', asc ''cat_category''), (asc ''data-id'', asc ''14'')]
                [el ''a'' ''cat_name'' [Str (asc ''Linear'')]]]]]"

text \<open>
  A listing of two pages: the first page holds two numbered problems, every other page
  holds none. The body of a response is the page number (see \<open>site\<close>).
\<close>

definition numbered :: "string \<Rightarrow> string \<Rightarrow> node" where
  "numbered label n =
     el ''span'' ''prob_nums'' [Str (asc label), Tag (asc ''a'') [(asc ''href'', asc ''/problem?id='' @ asc n)] [Str (asc n)]]"

definition listing :: "ustring \<Rightarrow> node" where
  "listing body =
     (if body = asc ''1'' then document [numbered ''Type 1 No. '' ''27'', numbered ''Type 2 No. '' ''31'']
      else document [])"

text \<open>
  A problem page whose condition shows the same formula image twice and one drawing.
\<close>

definition formula :: "string \<Rightarrow> node" where
  "formula src = Tag (asc ''img'') [(asc ''class'', asc ''tex''), (asc ''src'', asc src)] []"



text \<open>
  A problem page with a body block before the problem block, which holds two body
  blocks and an empty block of related problems.
\<close>

definition page_outside_body :: node where
  "page_outside_body =
     document
       [el ''div'' ''pbody'' [Str (asc ''Banner'')],
        el ''div'' ''prob_maindiv''
          [el ''div'' ''pbody'' [Str (asc ''2+2'')],
           el ''div'' ''pbody'' [Str (asc ''Sol'')],
           el ''div'' ''minor'' []]]"

text \<open>
  A problem page (for the problem 12) whose one related link has a digit before the
  path: \<^verbatim>\<open>1/problem?id=2\<close>.
\<close>

definition page_glued_link :: node where
  "page_glued_link =
     document
       [el ''div'' ''prob_maindiv''
          [el ''div'' ''pbody'' [Str (asc ''2+2'')],
           el ''div'' ''minor'' [link_to ''1/problem?id=2'']]]"

section \<open>Notions of the specification\<close>


text \<open>
  The \<^verbatim>\<open>src\<close> of the formula images (class \<^verbatim>\<open>tex\<close>) of a fragment, and of all its
  images, in document order.
\<close>

definition tex_links :: "node \<Rightarrow> ustring option list" where
  "tex_links tag =
     map (\<lambda>(q, img). attr_get img (asc ''src'')) (find_all tag (asc ''img'') (Some (asc ''tex'')))"


text \<open>
  The one modification of a problem block: the \<^verbatim>\<open>src\<close> of an image that does not
  contain the base domain becomes its join with the base URL. \<open>rewrite_node\<close> modifies
  a node and everything below it, \<open>rewrite_below\<close> what is below a block.
\<close>

definition rewrite_img :: "env \<Rightarrow> client \<Rightarrow> node \<Rightarrow> node" where
  "rewrite_img E self t =
     (case attr_get t (asc ''src'') of
        None \<Rightarrow> t
      | Some src \<Rightarrow>
          if contains src BASE_DOMAIN then t
          else attr_set (asc ''src'') (urljoin E (base_url self) src) t)"

fun rewrite_node :: "env \<Rightarrow> client \<Rightarrow> node \<Rightarrow> node" where
  "rewrite_node E self (Str s) = Str s"
| "rewrite_node E self (Special s) = Special s"
| "rewrite_node E self (Tag n attrs cs) =
     (if n = asc ''img'' then rewrite_img E self (Tag n attrs (map (rewrite_node E self) cs))
      else Tag n attrs (map (rewrite_node E self) cs))"

definition rewrite_below :: "env \<Rightarrow> client \<Rightarrow> node \<Rightarrow> node" where
  "rewrite_below E self t =
     (case t of Tag n attrs cs \<Rightarrow> Tag n attrs (map (rewrite_node E self) cs) | _ \<Rightarrow> t)"

text \<open>
  The soup after the loop over the images of the problem block: the block, at its
  position, with what is below it modified.
\<close>

definition rewritten :: "env \<Rightarrow> client \<Rightarrow> node \<Rightarrow> node" where
  "rewritten E self doc =
     (case find doc (asc ''div'') (Some (asc ''prob_maindiv'')) of
        None \<Rightarrow> doc
      | Some (bp, block) \<Rightarrow> update_at bp (\<lambda>old. rewrite_below E self block) doc)"


text \<open>The part built from a tag, \<open>None\<close> when building it raises.\<close>

definition part_of :: "env \<Rightarrow> client \<Rightarrow> node \<Rightarrow> bool \<Rightarrow> problem_part option" where
  "part_of E self tag recognize_text =
     (case priv_get_problem_part E self (Some tag) recognize_text of
        Inl e \<Rightarrow> None
      | Inr (part, tag1) \<Rightarrow> Some part)"

text \<open>
  \<open>edited r t t'\<close>: the tree \<open>t'\<close> is \<open>t\<close> but for the values of \<^verbatim>\<open>src\<close> attributes
  and, when \<open>r\<close> holds, for images in whose place a string stands.
\<close>

definition other_attrs :: "(ustring \<times> ustring) list \<Rightarrow> (ustring \<times> ustring) list" where
  "other_attrs attrs = filter (\<lambda>(k, v). k \<noteq> asc ''src'') attrs"

fun edited :: "bool \<Rightarrow> node \<Rightarrow> node \<Rightarrow> bool" where
  "edited r (Str s) t' = (t' = Str s)"
| "edited r (Special s) t' = (t' = Special s)"
| "edited r (Tag n attrs cs) (Tag n' attrs' cs') =
     (n' = n \<and> other_attrs attrs' = other_attrs attrs \<and> list_all2 (edited r) cs cs')"
| "edited r (Tag n attrs cs) (Str s) = (r \<and> n = asc ''img'')"
| "edited r (Tag n attrs cs) (Special s) = False"

text \<open>
  Images are void elements: in the tree of a parsed page an image has no contents.
\<close>

fun void_imgs :: "node \<Rightarrow> bool" where
  "void_imgs (Str s) = True"
| "void_imgs (Special s) = True"
| "void_imgs (Tag n attrs cs) = ((n = asc ''img'' \<longrightarrow> cs = []) \<and> list_all void_imgs cs)"



text \<open>
  Two notations for lists of positions: the positions moved below a position, and the
  images of a list of descendants.
\<close>

definition under :: "path \<Rightarrow> (path \<times> node) list \<Rightarrow> (path \<times> node) list" where
  "under \<pi> L = map (\<lambda>(p, d). (\<pi> @ p, d)) L"

definition imgs_of :: "(path \<times> node) list \<Rightarrow> (path \<times> node) list" where
  "imgs_of L = filter (\<lambda>(p, d). matches (asc ''img'') None d) L"



text \<open>
  The soup when the solution is looked for: after the loop over the images and after
  the condition is built (which changes the soup when it recognises text).
\<close>

definition after_condition :: "env \<Rightarrow> client \<Rightarrow> node \<Rightarrow> bool \<Rightarrow> node" where
  "after_condition E self doc recognize_text =
     (case condition_expr E self (rewritten E self doc) recognize_text of
        Inl e \<Rightarrow> rewritten E self doc
      | Inr (part, d) \<Rightarrow> d)"

text \<open>
  Where, below a problem block, the solution is: at its solution block, else at the
  second of its body blocks, else nowhere.
\<close>

definition solution_position :: "node \<Rightarrow> path option" where
  "solution_position block =
     (case find block (asc ''div'') (Some (asc ''solution'')) of
        Some (sp, s) \<Rightarrow> Some sp
      | None \<Rightarrow>
          (case find_all block (asc ''div'') (Some (asc ''pbody'')) of
             a # (sp, b) # rest \<Rightarrow> Some sp
           | _ \<Rightarrow> None))"




section \<open>Properties\<close>

lemmas string_defs = asc_def split_ws_def isspace_def split_sep_def strip_def lstrip_chars_def
  str_int_def otvet_def zadaniya_def BASE_DOMAIN_def

lemmas tree_defs = find_def find_all_def matches_def attr_get_def attr_item_def attr_set_def
  node_at_def

lemmas site_defs = site_def math_ege_def el_def document_def link_to_def ascii_decimal_def
  ascii_digit_def nfkc_excerpt_def numbered_def listing_def formula_def

lemmas problem_defs = get_problem_by_id_def get_problem_by_id_body_def handle_params_def
  priv_get_def base_url_def try_except_def topic_id_expr_def condition_expr_def
  solution_expr_def solution_tag_expr_def answer_expr_def analogs_expr_def
  priv_get_problem_part_def py_int_def isdigit_def digit_of_def

subsection \<open>The decorator\<close>

lemma handle_params_returns:
  "method (self\<lparr>gia_type := g, subject := Some s\<rparr>) = Inr v \<Longrightarrow>
   handle_params method (Some g) (Some s) self = (Inr v, self)"
  by (simp add: handle_params_def)

lemma handle_params_raises:
  "method (self\<lparr>gia_type := g, subject := Some s\<rparr>) = Inl e \<Longrightarrow>
   handle_params method (Some g) (Some s) self = (Inl e, self\<lparr>gia_type := g, subject := Some s\<rparr>)"
  by (simp add: handle_params_def)

text \<open>
  C3. The client is the mathematics client of the EGE; \<^verbatim>\<open>get_problem_by_id\<close> is called
  with the overrides \<^verbatim>\<open>gia_type="oge"\<close> and \<^verbatim>\<open>subject="rus"\<close> on a page without the
  problem block. The call raises RuntimeError, and the client is left with the
  overrides: the ambient scope is not restored when the call fails.
\<close>

theorem override_stays_after_failure:
  "get_problem_by_id (site (\<lambda>body. page_no_container)) 1 False
     (Some (asc ''oge'')) (Some (asc ''rus'')) math_ege
   = (Inl RuntimeError, \<lparr>gia_type = asc ''oge'', subject = Some (asc ''rus'')\<rparr>)"
  by (simp add: problem_defs tree_defs string_defs site_defs page_no_container_def)

subsection \<open>Optional fields of a problem\<close>

text \<open>
  C1. On a page that has the problem block but no block of related problems, the call
  raises AttributeError: the analog list does not degrade to the empty sequence.
\<close>

theorem missing_related_block_raises:
  "get_problem_by_id (site (\<lambda>body. page_no_related)) 1 False None None math_ege
   = (Inl AttributeError, math_ege)"
  by (simp add: problem_defs tree_defs string_defs site_defs page_no_related_def)

text \<open>
  C6. On a page whose answer block reads the label and, with no space between, a word
  that starts with letters of the label, the answer is the last letter of the word
  alone: the characters of the label are stripped as a set, not the label once.
\<close>

theorem answer_label_stripped_as_set:
  "map_sum id answer
     (fst (get_problem_by_id (site (\<lambda>body. page_word_answer)) 1 False None None math_ege))
   = Inr [1088]"
  by (simp add: problem_defs tree_defs string_defs site_defs page_word_answer_def veter_def)

subsection \<open>The catalog\<close>

lemma collect_catalog_keeps:
  "collect_catalog tags catalog = Inr c \<Longrightarrow> c = catalog"
  by (induction tags catalog rule: collect_catalog.induct)
     (auto simp: attr_item_def split: option.splits sum.splits if_splits)

lemma get_catalog_body_lists_nothing:
  "get_catalog_body E self = Inr entries \<Longrightarrow> entries = []"
  by (auto simp: get_catalog_body_def split: sum.splits dest!: collect_catalog_keeps)

text \<open>
  C7. On a catalog page with the block of the page itself (no \<^verbatim>\<open>data-id\<close>) and one
  topic, \<^verbatim>\<open>get_catalog\<close> raises KeyError at the first block without \<^verbatim>\<open>data-id\<close>: it
  drops no block and produces no entry.
\<close>

theorem catalog_raises_on_block_without_id:
  "get_catalog (site (\<lambda>body. catalog_page)) None None math_ege = (Inl KeyError, math_ege)"
  by (simp add: get_catalog_def get_catalog_body_def handle_params_def priv_get_def
        tree_defs string_defs site_defs catalog_page_def)


subsection \<open>Paginated listings\<close>

lemmas listing_defs = search_page_def theme_page_def theme_spans_def last_int_def link_text_def
  priv_get_def py_int_def digit_of_def

lemma map_err_length: "map_err f xs = Inr ys \<Longrightarrow> length ys = length xs"
  by (induction xs arbitrary: ys) (auto split: sum.splits)

lemma theme_page_nonempty:
  assumes "theme_page E self theme_id p = Inr ts" and "ts \<noteq> []"
  obtains spans where "theme_spans E self theme_id p = Inr spans" and "spans \<noteq> []"
    and "map_err (\<lambda>(q, i). link_text i) spans = Inr ts"
proof -
  from assms(1) obtain spans where s: "theme_spans E self theme_id p = Inr spans"
      "map_err (\<lambda>(q, i). link_text i) spans = Inr ts"
    by (auto simp: theme_page_def split: sum.splits)
  with assms(2) have "spans \<noteq> []" by auto
  with s show ?thesis using that by blast
qed

lemma theme_page_empty:
  assumes "theme_page E self theme_id p = Inr []"
  shows "theme_spans E self theme_id p = Inr []"
  using assms by (auto simp: theme_page_def split: sum.splits dest: map_err_length)

lemma theme_loop_pages:
  "(\<And>i. i < k \<Longrightarrow> theme_page E self theme_id (p + i) = Inr (pages (p + i)) \<and> pages (p + i) \<noteq> []) \<Longrightarrow>
   theme_page E self theme_id (p + k) = Inr [] \<Longrightarrow>
   theme_loop E self theme_id p acc fetched
     = Some (Inr (acc @ concat (map pages [p..<p + k])), fetched @ [p..<Suc (p + k)])"
proof (induction k arbitrary: p acc fetched)
  case 0
  then have "theme_spans E self theme_id p = Inr []"
    by (simp add: theme_page_empty)
  then show ?case by (subst theme_loop.simps) simp
next
  case (Suc k)
  have "theme_page E self theme_id p = Inr (pages p)" "pages p \<noteq> []"
    using Suc.prems(1)[of 0] by simp_all
  then obtain spans where spans: "theme_spans E self theme_id p = Inr spans" "spans \<noteq> []"
    "map_err (\<lambda>(q, i). link_text i) spans = Inr (pages p)"
    by (rule theme_page_nonempty)
  have rest: "\<And>i. i < k \<Longrightarrow> theme_page E self theme_id (Suc p + i) = Inr (pages (Suc p + i)) \<and> pages (Suc p + i) \<noteq> []"
    using Suc.prems(1)[of "Suc _"] by simp
  have stop: "theme_page E self theme_id (Suc p + k) = Inr []"
    using Suc.prems(2) by simp
  have "theme_loop E self theme_id p acc fetched
      = theme_loop E self theme_id (Suc p) (acc @ pages p) (fetched @ [p])"
    by (subst theme_loop.simps) (simp add: spans)
  also have "\<dots> = Some (Inr ((acc @ pages p) @ concat (map pages [Suc p..<Suc p + k])),
                        (fetched @ [p]) @ [Suc p..<Suc (Suc p + k)])"
    by (rule Suc.IH[OF rest stop])
  also have "\<dots> = Some (Inr (acc @ concat (map pages [p..<p + Suc k])), fetched @ [p..<Suc (p + Suc k)])"
  proof -
    have a: "[p..<p + Suc k] = p # [Suc p..<Suc p + k]"
      by (simp add: upt_conv_Cons del: upt_Suc)
    have b: "[p..<Suc (p + Suc k)] = p # [Suc p..<Suc (Suc p + k)]"
      by (simp add: upt_conv_Cons del: upt_Suc)
    show ?thesis unfolding a b by simp
  qed
  finally show ?case .
qed

lemma search_loop_pages:
  "(\<And>i. i < k \<Longrightarrow> search_page E self query (p + i) = Inr (pages (p + i)) \<and> pages (p + i) \<noteq> []) \<Longrightarrow>
   search_page E self query (p + k) = Inr [] \<Longrightarrow>
   search_loop E self query p acc fetched
     = Some (Inr (acc @ concat (map pages [p..<p + k])), fetched @ [p..<Suc (p + k)])"
proof (induction k arbitrary: p acc fetched)
  case 0
  then show ?case by (subst search_loop.simps) simp
next
  case (Suc k)
  have first: "search_page E self query p = Inr (pages p)" "pages p \<noteq> []"
    using Suc.prems(1)[of 0] by simp_all
  have rest: "\<And>i. i < k \<Longrightarrow> search_page E self query (Suc p + i) = Inr (pages (Suc p + i)) \<and> pages (Suc p + i) \<noteq> []"
    using Suc.prems(1)[of "Suc _"] by simp
  have stop: "search_page E self query (Suc p + k) = Inr []"
    using Suc.prems(2) by simp
  have "search_loop E self query p acc fetched
      = search_loop E self query (Suc p) (acc @ pages p) (fetched @ [p])"
    by (subst search_loop.simps) (simp add: first)
  also have "\<dots> = Some (Inr ((acc @ pages p) @ concat (map pages [Suc p..<Suc p + k])),
                        (fetched @ [p]) @ [Suc p..<Suc (Suc p + k)])"
    by (rule Suc.IH[OF rest stop])
  also have "\<dots> = Some (Inr (acc @ concat (map pages [p..<p + Suc k])), fetched @ [p..<Suc (p + Suc k)])"
  proof -
    have a: "[p..<p + Suc k] = p # [Suc p..<Suc p + k]"
      by (simp add: upt_conv_Cons del: upt_Suc)
    have b: "[p..<Suc (p + Suc k)] = p # [Suc p..<Suc (Suc p + k)]"
      by (simp add: upt_conv_Cons del: upt_Suc)
    show ?thesis unfolding a b by simp
  qed
  finally show ?case .
qed


text \<open>
  C2. For \<^verbatim>\<open>search\<close> and for \<^verbatim>\<open>get_theme_by_id\<close>: when the pages \<open>1\<close> to \<open>k\<close> each
  yield at least one id and page \<open>k + 1\<close> yields none, the loop ends, the result is
  the ids of the pages \<open>1\<close> to \<open>k\<close> in page order, and the pages requested are
  \<open>1, 2, ..., k + 1\<close> in this order. With \<open>k = 0\<close>: when page 1 yields no id the
  result is empty and page 1 is the only page requested.
\<close>

theorem paginated_collection:
  "((\<forall>i. 1 \<le> i \<and> i \<le> k \<longrightarrow> search_page E self query i = Inr (found i) \<and> found i \<noteq> [])
      \<and> search_page E self query (Suc k) = Inr []
    \<longrightarrow> search_body E query self
          = Some (Inr (concat (map found [1..<Suc k])), [1..<Suc (Suc k)]))
   \<and> ((\<forall>i. 1 \<le> i \<and> i \<le> m \<longrightarrow> theme_page E self theme_id i = Inr (labels i) \<and> labels i \<noteq> [])
      \<and> theme_page E self theme_id (Suc m) = Inr []
    \<longrightarrow> get_theme_by_id_body E theme_id self
          = Some (Inr (concat (map labels [1..<Suc m])), [1..<Suc (Suc m)]))"
proof (intro conjI impI; elim conjE)
  assume a: "\<forall>i. 1 \<le> i \<and> i \<le> k \<longrightarrow> search_page E self query i = Inr (found i) \<and> found i \<noteq> []"
    and b: "search_page E self query (Suc k) = Inr []"
  have "search_loop E self query 1 [] []
      = Some (Inr ([] @ concat (map found [1..<1 + k])), [] @ [1..<Suc (1 + k)])"
    using a b by (intro search_loop_pages) simp_all
  then show "search_body E query self
      = Some (Inr (concat (map found [1..<Suc k])), [1..<Suc (Suc k)])"
    by (simp add: search_body_def)
next
  assume a: "\<forall>i. 1 \<le> i \<and> i \<le> m \<longrightarrow> theme_page E self theme_id i = Inr (labels i) \<and> labels i \<noteq> []"
    and b: "theme_page E self theme_id (Suc m) = Inr []"
  have "theme_loop E self theme_id 1 [] []
      = Some (Inr ([] @ concat (map labels [1..<1 + m])), [] @ [1..<Suc (1 + m)])"
    using a b by (intro theme_loop_pages) simp_all
  then show "get_theme_by_id_body E theme_id self
      = Some (Inr (concat (map labels [1..<Suc m])), [1..<Suc (Suc m)])"
    by (simp add: get_theme_by_id_body_def)
qed

lemma search_first: "search_page (site listing) math_ege (asc ''q'') 1 = Inr [27, 31]"
  by (simp add: listing_defs tree_defs string_defs site_defs)
lemma search_second: "search_page (site listing) math_ege (asc ''q'') 2 = Inr []"
  by (simp add: listing_defs tree_defs string_defs site_defs)
lemma theme_first: "theme_page (site listing) math_ege 5 1 = Inr [asc ''27'', asc ''31'']"
  by (simp add: listing_defs tree_defs string_defs site_defs)
lemma theme_second: "theme_page (site listing) math_ege 5 2 = Inr []"
  by (simp add: listing_defs tree_defs string_defs site_defs)

text \<open>The listing of the examples: page 1 holds two problems and page 2 none.\<close>

theorem paginated_collection_witness:
  "search_body (site listing) (asc ''q'') math_ege = Some (Inr [27, 31], [1, 2])
   \<and> get_theme_by_id_body (site listing) 5 math_ege = Some (Inr [asc ''27'', asc ''31''], [1, 2])"
proof -
  have one: "i = 1" if "1 \<le> i \<and> i \<le> (1::nat)" for i
    using that by simp
  have s: "\<forall>i. 1 \<le> i \<and> i \<le> 1 \<longrightarrow> search_page (site listing) math_ege (asc ''q'') i = Inr ((\<lambda>i. [27, 31]) i) \<and> (\<lambda>i. [27, 31::int]) i \<noteq> []"
    using search_first by (auto dest: one)
  have t: "\<forall>i. 1 \<le> i \<and> i \<le> 1 \<longrightarrow> theme_page (site listing) math_ege 5 i = Inr ((\<lambda>i. [asc ''27'', asc ''31'']) i) \<and> (\<lambda>i. [asc ''27'', asc ''31'']) i \<noteq> []"
    using theme_first by (auto dest: one)
  have s2: "search_page (site listing) math_ege (asc ''q'') (Suc 1) = Inr []"
    using search_second by (simp add: numeral_2_eq_2)
  have t2: "theme_page (site listing) math_ege 5 (Suc 1) = Inr []"
    using theme_second by (simp add: numeral_2_eq_2)
  from paginated_collection[of 1 "site listing" math_ege "asc ''q''" "\<lambda>i. [27, 31]" 1 5 "\<lambda>i. [asc ''27'', asc ''31'']"]
  show ?thesis using s s2 t t2 by (simp add: upt_rec)
qed


subsection \<open>Text normalisation\<close>

lemma replace_absent: "c \<notin> set s \<Longrightarrow> replace s [c] new = s"
  by (induction s) auto

lemma nfkc_excerpt_idem: "nfkc_excerpt (nfkc_excerpt t) = nfkc_excerpt t"
  by (simp add: nfkc_excerpt_def)

text \<open>
  C9, as stated, fails: NFKC runs after the two replacements and itself produces the
  typographic minus from the superscript minus U+207B. The text "10", U+207B, "3"
  normalises to "10", U+2212, "3", and normalising that gives "10-3".
\<close>

theorem normalize_text_not_idempotent:
  "normalize_text (site listing) (normalize_text (site listing) [49, 48, 8315, 51])
   \<noteq> normalize_text (site listing) [49, 48, 8315, 51]"
  by (simp add: normalize_text_def site_def nfkc_excerpt_def minus_sign_def soft_hyphen_def)

text \<open>
  C9, amended. NFKC being idempotent, the normalisation of a string is a fixed point of
  the normalisation whenever it holds neither the typographic minus U+2212 nor the soft
  hyphen U+00AD.
\<close>

theorem normalize_text_idempotent_when_clean:
  assumes "\<And>t. nfkc E (nfkc E t) = nfkc E t"
    and "minus_sign \<notin> set (normalize_text E s)"
    and "soft_hyphen \<notin> set (normalize_text E s)"
  shows "normalize_text E (normalize_text E s) = normalize_text E s"
proof -
  let ?n = "normalize_text E s"
  have "replace (replace ?n [minus_sign] [45]) [soft_hyphen] [] = ?n"
    using assms(2,3) by (simp add: replace_absent)
  then have "normalize_text E ?n = nfkc E ?n"
    by (simp add: normalize_text_def)
  also have "\<dots> = ?n"
    using assms(1) by (simp add: normalize_text_def)
  finally show ?thesis .
qed

text \<open>The text "x", U+2212, U+00AD, "1" normalises to "x-1", which stays.\<close>

theorem normalize_text_idempotent_witness:
  "(\<forall>t. nfkc (site listing) (nfkc (site listing) t) = nfkc (site listing) t)
   \<and> minus_sign \<notin> set (normalize_text (site listing) [120, 8722, 173, 49])
   \<and> soft_hyphen \<notin> set (normalize_text (site listing) [120, 8722, 173, 49])
   \<and> normalize_text (site listing) [120, 8722, 173, 49] = asc ''x-1''
   \<and> normalize_text (site listing) (normalize_text (site listing) [120, 8722, 173, 49])
       = normalize_text (site listing) [120, 8722, 173, 49]"
proof -
  have idem: "\<And>t. nfkc (site listing) (nfkc (site listing) t) = nfkc (site listing) t"
    by (simp add: site_def nfkc_excerpt_idem)
  have val: "normalize_text (site listing) [120, 8722, 173, 49] = asc ''x-1''"
    by (simp add: normalize_text_def site_def nfkc_excerpt_def minus_sign_def soft_hyphen_def
          asc_def)
  have m: "minus_sign \<notin> set (normalize_text (site listing) [120, 8722, 173, 49])"
    unfolding val by (simp add: asc_def minus_sign_def)
  have h: "soft_hyphen \<notin> set (normalize_text (site listing) [120, 8722, 173, 49])"
    unfolding val by (simp add: asc_def soft_hyphen_def)
  from normalize_text_idempotent_when_clean[OF idem m h] idem m h val
  show ?thesis by blast
qed


subsection \<open>The image links of a part\<close>








subsection \<open>Positions, and the edits of a tree\<close>

lemma descendants_subtree:
  "(q, d) \<in> set (descendants t) \<Longrightarrow> subtree t q = Some d"
  "(q, d) \<in> set (descendants_from i cs) \<Longrightarrow>
     \<exists>j p. q = (i + j) # p \<and> j < length cs \<and> subtree (cs ! j) p = Some d"
proof (induction t and i cs arbitrary: q d and q d rule: descendants_descendants_from.induct)
  case (3 n attrs cs)
  then obtain j p where "q = j # p" "j < length cs" "subtree (cs ! j) p = Some d"
    by fastforce
  then show ?case by simp
next
  case (5 i c cs)
  from "5.prems" consider "q = [i] \<and> d = c"
    | p where "q = i # p" "(p, d) \<in> set (descendants c)"
    | "(q, d) \<in> set (descendants_from (Suc i) cs)"
    by auto
  then show ?case
  proof cases
    case 1
    then have "q = (i + 0) # [] \<and> 0 < length (c # cs) \<and> subtree ((c # cs) ! 0) [] = Some d"
      by simp
    then show ?thesis by blast
  next
    case 2
    then have "subtree c p = Some d" using "5.IH"(1) by blast
    with 2 have "q = (i + 0) # p \<and> 0 < length (c # cs) \<and> subtree ((c # cs) ! 0) p = Some d"
      by simp
    then show ?thesis by blast
  next
    case 3
    then obtain j p where "q = (Suc i + j) # p" "j < length cs" "subtree (cs ! j) p = Some d"
      using "5.IH"(2) by blast
    then have "q = (i + Suc j) # p \<and> Suc j < length (c # cs) \<and> subtree ((c # cs) ! Suc j) p = Some d"
      by simp
    then show ?thesis by blast
  qed
qed simp_all

lemma subtree_append:
  "subtree t (p @ q) = (case subtree t p of None \<Rightarrow> None | Some u \<Rightarrow> subtree u q)"
  by (induction t p rule: subtree.induct) auto

lemma update_at_append: "update_at (p @ q) f t = update_at p (update_at q f) t"
  by (induction p f t rule: update_at.induct) auto

lemma subtree_update_at:
  "subtree t p = Some u \<Longrightarrow> subtree (update_at p f t) p = Some (f u)"
  by (induction t p rule: subtree.induct) (auto split: if_splits)

lemma update_at_twice: "update_at p g (update_at p f t) = update_at p (\<lambda>u. g (f u)) t"
  by (induction p f t rule: update_at.induct) auto

lemma update_at_eq:
  "subtree t p = Some u \<Longrightarrow> f u = g u \<Longrightarrow> update_at p f t = update_at p g t"
  by (induction t p rule: subtree.induct) (auto split: if_splits)

lemma update_at_same: "subtree t p = Some u \<Longrightarrow> f u = u \<Longrightarrow> update_at p f t = t"
  by (induction t p rule: subtree.induct) (auto split: if_splits)


lemma node_at_update_at:
  "subtree t p = Some u \<Longrightarrow> node_at (update_at p f t) p = f u"
  by (simp add: node_at_def subtree_update_at)

lemma rewrite_srcs_append:
  "rewrite_srcs E self (L1 @ L2) cur
   = (case rewrite_srcs E self L1 cur of Inl e \<Rightarrow> Inl e | Inr c \<Rightarrow> rewrite_srcs E self L2 c)"
  by (induction L1 arbitrary: cur) (auto split: sum.splits)

lemma imgs_of_append: "imgs_of (L1 @ L2) = imgs_of L1 @ imgs_of L2"
  by (simp add: imgs_of_def)

lemma imgs_of_map: "imgs_of (map (\<lambda>(p, d). (f p, d)) L) = map (\<lambda>(p, d). (f p, d)) (imgs_of L)"
  by (induction L) (auto simp: imgs_of_def)

lemma under_append: "under \<pi> (L1 @ L2) = under \<pi> L1 @ under \<pi> L2"
  by (simp add: under_def)

lemma under_map_Cons: "under \<pi> (map (\<lambda>(p, d). (i # p, d)) L) = under (\<pi> @ [i]) L"
  by (induction L) (auto simp: under_def)

lemma rewrite_img_Tag:
  "\<exists>attrs'. \<forall>cs. rewrite_img E self (Tag n attrs cs) = Tag n attrs' cs"
proof (cases "map_of attrs (asc ''src'')")
  case None
  then have "\<forall>cs. rewrite_img E self (Tag n attrs cs) = Tag n attrs cs"
    by (simp add: rewrite_img_def attr_get_def)
  then show ?thesis ..
next
  case (Some src)
  show ?thesis
  proof (cases "contains src BASE_DOMAIN")
    case True
    with Some have "\<forall>cs. rewrite_img E self (Tag n attrs cs) = Tag n attrs cs"
      by (simp add: rewrite_img_def attr_get_def)
    then show ?thesis ..
  next
    case False
    with Some have "\<forall>cs. rewrite_img E self (Tag n attrs cs)
        = Tag n (map (\<lambda>(k, w). if k = asc ''src'' then (k, urljoin E (base_url self) src)
                                 else (k, w)) attrs) cs"
      by (simp add: rewrite_img_def attr_get_def attr_set_def)
    then show ?thesis ..
  qed
qed

text \<open>One step of the loop on the node it addresses.\<close>

lemma rewrite_step:
  assumes "subtree cur p = Some c" and "matches (asc ''img'') None c"
    and "rewrite_srcs E self ((p, c) # L) cur = Inr r"
  shows "rewrite_srcs E self L (update_at p (\<lambda>old. rewrite_img E self c) cur) = Inr r"
proof -
  from assms(3) obtain src where src: "attr_item c (asc ''src'') = Inr src"
    by (auto split: sum.splits)
  then have get: "attr_get c (asc ''src'') = Some src"
    by (auto simp: attr_item_def split: option.splits)
  show ?thesis
  proof (cases "contains src BASE_DOMAIN")
    case True
    then have "rewrite_img E self c = c" by (simp add: rewrite_img_def get)
    then have "update_at p (\<lambda>old. rewrite_img E self c) cur = cur"
      using assms(1) by (simp add: update_at_same)
    with assms(3) src True show ?thesis by simp
  next
    case False
    then have "rewrite_img E self c = attr_set (asc ''src'') (urljoin E (base_url self) src) c"
      by (simp add: rewrite_img_def get)
    then have "update_at p (\<lambda>old. rewrite_img E self c) cur
        = update_at p (attr_set (asc ''src'') (urljoin E (base_url self) src)) cur"
      using assms(1) by (intro update_at_eq) simp_all
    with assms(3) src False show ?thesis by simp
  qed
qed


text \<open>
  The loop over the images below the children \<open>cs\<close> of the node at \<open>\<pi>\<close>, of which
  the children before \<open>cs\<close> are done.
\<close>

lemma rewrite_srcs_children:
  "subtree cur \<pi> = Some (Tag n a' ks) \<Longrightarrow>
   rewrite_srcs E self (under \<pi> (imgs_of (descendants t))) cur = Inr r \<Longrightarrow>
   t = Tag m a ks \<Longrightarrow>
   r = update_at \<pi> (\<lambda>old. Tag n a' (map (rewrite_node E self) ks)) cur"
  "subtree cur \<pi> = Some (Tag n a' (front @ cs)) \<Longrightarrow> length front = i \<Longrightarrow>
   rewrite_srcs E self (under \<pi> (imgs_of (descendants_from i cs))) cur = Inr r \<Longrightarrow>
   r = update_at \<pi> (\<lambda>old. Tag n a' (front @ map (rewrite_node E self) cs)) cur"
proof (induction t and i cs arbitrary: cur \<pi> n a' r m a ks and cur \<pi> n a' front r
       rule: descendants_descendants_from.induct)
  case (1 s)
  then show ?case by simp
next
  case (2 s)
  then show ?case by simp
next
  case (3 k attrs ds)
  from "3.prems" have "ds = ks" by simp
  with "3.prems" "3.IH"[of cur \<pi> n a' "[]" r] show ?case by simp
next
  case (4 i)
  then show ?case
    by (simp add: imgs_of_def under_def update_at_same)
next
  case (5 i c cs)
  let ?M = "rewrite_node E self"
  have at_c: "subtree cur (\<pi> @ [i]) = Some c"
    using "5.prems"(1,2) by (simp add: subtree_append nth_append)
  define c1 where "c1 = (if matches (asc ''img'') None c then rewrite_img E self c else c)"
  define cur1 where "cur1 = update_at (\<pi> @ [i]) (\<lambda>old. c1) cur"
  define rest where
    "rest = under (\<pi> @ [i]) (imgs_of (descendants c)) @ under \<pi> (imgs_of (descendants_from (Suc i) cs))"
  have list: "under \<pi> (imgs_of (descendants_from i (c # cs)))
      = (if matches (asc ''img'') None c then [(\<pi> @ [i], c)] else []) @ rest"
  proof -
    have "imgs_of (descendants_from i (c # cs))
        = (if matches (asc ''img'') None c then [([i], c)] else [])
          @ map (\<lambda>(p, d). (i # p, d)) (imgs_of (descendants c))
          @ imgs_of (descendants_from (Suc i) cs)"
      using imgs_of_map[of "(#) i" "descendants c"]
      by (simp add: imgs_of_append) (simp add: imgs_of_def)
    then show ?thesis
      by (simp add: rest_def under_append under_map_Cons) (simp add: under_def)
  qed
  have step1: "rewrite_srcs E self rest cur1 = Inr r"
  proof (cases "matches (asc ''img'') None c")
    case True
    with "5.prems"(3) list have "rewrite_srcs E self ((\<pi> @ [i], c) # rest) cur = Inr r"
      by simp
    from rewrite_step[OF at_c True this] True show ?thesis
      by (simp add: cur1_def c1_def)
  next
    case False
    then have "cur1 = cur"
      using at_c by (simp add: cur1_def c1_def update_at_same)
    with "5.prems"(3) list False show ?thesis by simp
  qed
  then obtain cur2 where
    step2: "rewrite_srcs E self (under (\<pi> @ [i]) (imgs_of (descendants c))) cur1 = Inr cur2"
    and step3: "rewrite_srcs E self (under \<pi> (imgs_of (descendants_from (Suc i) cs))) cur2 = Inr r"
    by (auto simp: rest_def rewrite_srcs_append split: sum.splits)
  have at_c1: "subtree cur1 (\<pi> @ [i]) = Some c1"
    using at_c by (simp add: cur1_def subtree_update_at)
  have cur2: "cur2 = update_at (\<pi> @ [i]) (\<lambda>old. ?M c) cur1"
  proof (cases c)
    case (Str s)
    then have "cur2 = cur1" "c1 = c"
      using step2 by (simp_all add: imgs_of_def under_def c1_def matches_def)
    with at_c1 Str show ?thesis by (simp add: update_at_same)
  next
    case (Special s)
    then have "cur2 = cur1" "c1 = c"
      using step2 by (simp_all add: imgs_of_def under_def c1_def matches_def)
    with at_c1 Special show ?thesis by (simp add: update_at_same)
  next
    case (Tag k b ds)
    obtain b' where b': "\<forall>xs. rewrite_img E self (Tag k b xs) = Tag k b' xs"
      using rewrite_img_Tag by blast
    define b1 where "b1 = (if k = asc ''img'' then b' else b)"
    have c1: "c1 = Tag k b1 ds"
      using Tag b' by (auto simp: c1_def b1_def matches_def)
    have "cur2 = update_at (\<pi> @ [i]) (\<lambda>old. Tag k b1 (map ?M ds)) cur1"
      using "5.IH"(1)[OF _ step2 Tag, of k b1] at_c1 c1 by simp
    moreover have "?M c = Tag k b1 (map ?M ds)"
      using Tag b' by (auto simp: b1_def)
    ultimately show ?thesis by simp
  qed
  have cur2': "cur2 = update_at (\<pi> @ [i]) (\<lambda>old. ?M c) cur"
    unfolding cur2 cur1_def by (simp add: update_at_twice)
  have at_pi2: "subtree cur2 \<pi> = Some (Tag n a' ((front @ [?M c]) @ cs))"
    using "5.prems"(1,2) unfolding cur2'
    by (simp add: update_at_append subtree_update_at list_update_append)
  have "r = update_at \<pi> (\<lambda>old. Tag n a' ((front @ [?M c]) @ map ?M cs)) cur2"
    using "5.IH"(2)[OF at_pi2 _ step3] "5.prems"(2) by simp
  also have "\<dots> = update_at \<pi> (\<lambda>old. Tag n a' (front @ map ?M (c # cs))) cur"
    unfolding cur2' by (simp add: update_at_append update_at_twice)
  finally show ?case .
qed

lemma rewrite_srcs_exact:
  assumes "rewrite_srcs E self (find_all block (asc ''img'') None) block = Inr block1"
  shows "block1 = rewrite_below E self block"
proof (cases block)
  case (Tag n a cs)
  have "find_all block (asc ''img'') None = under [] (imgs_of (descendants block))"
    by (simp add: find_all_def imgs_of_def under_def)
  with assms have "rewrite_srcs E self (under [] (imgs_of (descendants block))) block = Inr block1"
    by simp
  from rewrite_srcs_children(1)[OF _ this Tag, of n a] Tag
  show ?thesis by (simp add: rewrite_below_def)
qed (use assms in \<open>auto simp: find_all_def rewrite_below_def\<close>)

lemma other_attrs_set:
  "other_attrs (map (\<lambda>(k, w). if k = asc ''src'' then (k, v) else (k, w)) attrs) = other_attrs attrs"
  by (induction attrs) (auto simp: other_attrs_def)

lemma map_of_other_attrs:
  "k \<noteq> asc ''src'' \<Longrightarrow> map_of (other_attrs attrs) k = map_of attrs k"
  by (induction attrs) (auto simp: other_attrs_def)

lemma edited_refl: "edited r t t"
  by (induction t) (auto simp: list_all2_same)

lemma edited_rewrite_img:
  "edited r t (Tag n attrs cs) \<Longrightarrow> edited r t (rewrite_img E self (Tag n attrs cs))"
  by (cases t)
     (auto simp: rewrite_img_def attr_get_def attr_set_def other_attrs_set split: option.splits)

lemma edited_attr_set:
  "edited r t t' \<Longrightarrow> edited r t (attr_set (asc ''src'') v t')"
  by (cases t; cases t') (auto simp: attr_set_def other_attrs_set)

lemma edited_rewrite_node: "edited r t (rewrite_node E self t)"
proof (induction t)
  case (Tag n attrs cs)
  then have "list_all2 (edited r) cs (map (rewrite_node E self) cs)"
    by (simp add: list_all2_conv_all_nth)
  then have "edited r (Tag n attrs cs) (Tag n attrs (map (rewrite_node E self) cs))"
    by simp
  then show ?case
    by (auto intro: edited_rewrite_img)
qed simp_all

lemma edited_rewrite_below: "edited r t (rewrite_below E self t)"
  by (cases t) (auto simp: rewrite_below_def list_all2_conv_all_nth edited_rewrite_node)


lemma edited_subtree_back:
  "edited r t t' \<Longrightarrow> subtree t' p = Some u' \<Longrightarrow> \<exists>u. subtree t p = Some u \<and> edited r u u'"
proof (induction p arbitrary: t t')
  case Nil
  then show ?case by simp
next
  case (Cons i p)
  from Cons.prems(2) obtain n' a' cs' where t': "t' = Tag n' a' cs'" "i < length cs'"
      "subtree (cs' ! i) p = Some u'"
    by (cases t') (auto split: if_splits)
  with Cons.prems(1) obtain n a cs where t: "t = Tag n a cs" "list_all2 (edited r) cs cs'"
    by (cases t) auto
  then have "i < length cs" "edited r (cs ! i) (cs' ! i)"
    using t'(2) by (auto simp: list_all2_conv_all_nth)
  with Cons.IH[OF _ t'(3)] t show ?case by simp
qed

lemma edited_subtree:
  "edited r t t' \<Longrightarrow> (r \<longrightarrow> void_imgs t) \<Longrightarrow> subtree t p = Some u \<Longrightarrow>
   \<exists>u'. subtree t' p = Some u' \<and> edited r u u'"
proof (induction p arbitrary: t t')
  case Nil
  then show ?case by simp
next
  case (Cons i p)
  from Cons.prems(3) obtain n a cs where t: "t = Tag n a cs" "i < length cs"
      "subtree (cs ! i) p = Some u"
    by (cases t) (auto split: if_splits)
  with Cons.prems(1,2) obtain n' a' cs' where t': "t' = Tag n' a' cs'" "list_all2 (edited r) cs cs'"
    by (cases t') auto
  then have "i < length cs'" "edited r (cs ! i) (cs' ! i)"
    using t(2) by (auto simp: list_all2_conv_all_nth)
  moreover have "r \<longrightarrow> void_imgs (cs ! i)"
    using Cons.prems(2) t by (auto simp: list_all_length)
  ultimately show ?case
    using Cons.IH[OF _ _ t(3)] t' by simp
qed

lemma void_imgs_subtree: "void_imgs t \<Longrightarrow> subtree t p = Some u \<Longrightarrow> void_imgs u"
proof (induction p arbitrary: t)
  case Nil
  then show ?case by simp
next
  case (Cons i p)
  then show ?case by (cases t) (auto simp: list_all_length split: if_splits)
qed

lemma edited_update_at:
  "edited r t t' \<Longrightarrow> (\<And>u u'. subtree t q = Some u \<Longrightarrow> edited r u u' \<Longrightarrow> edited r u (f u')) \<Longrightarrow>
   edited r t (update_at q f t')"
proof (induction q arbitrary: t t')
  case Nil
  then show ?case by simp
next
  case (Cons i q)
  show ?case
  proof (cases t')
    case (Tag n' a' cs')
    show ?thesis
    proof (cases "i < length cs'")
      case True
      from Cons.prems(1) Tag obtain n a cs where t: "t = Tag n a cs" "n' = n"
          "other_attrs a' = other_attrs a" "list_all2 (edited r) cs cs'"
        by (cases t) auto
      then have i: "i < length cs" "edited r (cs ! i) (cs' ! i)"
        using True by (auto simp: list_all2_conv_all_nth)
      have "edited r (cs ! i) (update_at q f (cs' ! i))"
      proof (rule Cons.IH[OF i(2)])
        fix u u'
        assume "subtree (cs ! i) q = Some u" "edited r u u'"
        then show "edited r u (f u')"
          using Cons.prems(2)[of u u'] t i by simp
      qed
      then have "list_all2 (edited r) (cs[i := cs ! i]) (cs'[i := update_at q f (cs' ! i)])"
        using t(4) by (intro list_all2_update_cong)
      with t Tag True show ?thesis by simp
    next
      case False
      with Tag Cons.prems(1) show ?thesis by simp
    qed
  qed (use Cons.prems(1) in simp_all)
qed

lemma edited_descendants:
  "edited r t t' \<Longrightarrow> (r \<longrightarrow> void_imgs t) \<Longrightarrow>
   list_all2 (\<lambda>(p, d) (p', d'). p = p' \<and> edited r d d') (descendants t) (descendants t')"
  "list_all2 (edited r) cs cs' \<Longrightarrow> (r \<longrightarrow> list_all void_imgs cs) \<Longrightarrow>
   list_all2 (\<lambda>(p, d) (p', d'). p = p' \<and> edited r d d')
     (descendants_from i cs) (descendants_from i cs')"
proof (induction t and i cs arbitrary: t' and cs' rule: descendants_descendants_from.induct)
  case (1 s)
  then show ?case by simp
next
  case (2 s)
  then show ?case by simp
next
  case (3 n attrs cs)
  show ?case
  proof (cases t')
    case (Tag n' a' cs')
    with "3.prems" "3.IH"[of cs'] show ?thesis by simp
  next
    case (Str s)
    with "3.prems" show ?thesis by simp
  next
    case (Special s)
    with "3.prems" show ?thesis by simp
  qed
next
  case (4 i)
  then show ?case by simp
next
  case (5 i c cs)
  from "5.prems"(1) obtain c' ds' where cs': "cs' = c' # ds'" "edited r c c'"
      "list_all2 (edited r) cs ds'"
    by (auto simp: list_all2_Cons1)
  have a: "list_all2 (\<lambda>(p, d) (p', d'). p = p' \<and> edited r d d') (descendants c) (descendants c')"
    using "5.IH"(1)[OF cs'(2)] "5.prems"(2) by simp
  have b: "list_all2 (\<lambda>(p, d) (p', d'). p = p' \<and> edited r d d')
      (descendants_from (Suc i) cs) (descendants_from (Suc i) ds')"
    using "5.IH"(2)[OF cs'(3)] "5.prems"(2) by simp
  have "list_all2 (\<lambda>(p, d) (p', d'). p = p' \<and> edited r d d')
      (map (\<lambda>(p, d). (i # p, d)) (descendants c)) (map (\<lambda>(p, d). (i # p, d)) (descendants c'))"
    using a by (auto simp: list_all2_map1 list_all2_map2 elim!: list_all2_mono)
  with b cs' show ?case
    by (auto intro!: list_all2_appendI)
qed

lemma edited_matches:
  "edited r d d' \<Longrightarrow> (r \<longrightarrow> name \<noteq> asc ''img'') \<Longrightarrow> matches name cls d' = matches name cls d"
proof (cases d)
  case (Tag n a cs)
  assume e: "edited r d d'" and n: "r \<longrightarrow> name \<noteq> asc ''img''"
  show ?thesis
  proof (cases d')
    case d': (Tag n' a' cs')
    have cls: "asc ''class'' \<noteq> asc ''src''" by (simp add: asc_def)
    from e Tag d' have "n' = n" "other_attrs a' = other_attrs a" by simp_all
    then have "map_of a' (asc ''class'') = map_of a (asc ''class'')"
      using map_of_other_attrs[OF cls, of a] map_of_other_attrs[OF cls, of a'] by simp
    with \<open>n' = n\<close> Tag d' show ?thesis by (cases cls) (simp_all add: matches_def)
  next
    case (Str s)
    with e n Tag show ?thesis by (auto simp: matches_def)
  next
    case (Special s)
    with e Tag show ?thesis by simp
  qed
qed (auto simp: matches_def)

lemma list_all2_filter:
  "list_all2 R xs ys \<Longrightarrow> (\<And>x y. R x y \<Longrightarrow> P x = Q y) \<Longrightarrow>
   list_all2 R (filter P xs) (filter Q ys)"
  by (induction rule: list_all2_induct) auto

lemma edited_find_all:
  assumes "edited r t t'" and "r \<longrightarrow> void_imgs t" and "r \<longrightarrow> name \<noteq> asc ''img''"
  shows "list_all2 (\<lambda>(p, d) (p', d'). p = p' \<and> edited r d d')
           (find_all t name cls) (find_all t' name cls)"
  unfolding find_all_def
  by (rule list_all2_filter[OF edited_descendants(1)[OF assms(1,2)]])
     (auto simp: edited_matches[OF _ assms(3)])

lemma edited_find:
  assumes "edited r t t'" and "r \<longrightarrow> void_imgs t" and "r \<longrightarrow> name \<noteq> asc ''img''"
  shows "rel_option (\<lambda>(p, d) (p', d'). p = p' \<and> edited r d d')
           (find t name cls) (find t' name cls)"
  using edited_find_all[OF assms, of cls]
  by (auto simp: find_def split: list.splits)

lemma matches_TagD:
  "matches name cls d \<Longrightarrow> \<exists>a cs. d = Tag name a cs"
  by (cases d) (auto simp: matches_def)

lemma find_all_subtree:
  "(q, d) \<in> set (find_all t name cls) \<Longrightarrow> subtree t q = Some d \<and> matches name cls d"
  by (auto simp: find_all_def descendants_subtree(1))

lemma find_subtree:
  "find t name cls = Some (q, d) \<Longrightarrow> subtree t q = Some d \<and> matches name cls d"
  using find_all_subtree[of q d t name cls]
  by (auto simp: find_def split: list.splits)

lemma edited_Tag_back:
  "edited r w (Tag n a cs) \<Longrightarrow> \<exists>a0 cs0. w = Tag n a0 cs0"
  by (cases w) auto

lemma replace_images_edited:
  "edited True u cur \<Longrightarrow>
   (\<And>q d w. (q, d) \<in> set L \<Longrightarrow> subtree u q = Some w \<Longrightarrow> \<exists>a cs. w = Tag (asc ''img'') a cs) \<Longrightarrow>
   replace_images recognized L cur = Inr tag1 \<Longrightarrow> edited True u tag1"
proof (induction L arbitrary: cur)
  case Nil
  then show ?case by simp
next
  case (Cons x L)
  obtain q d where x: "x = (q, d)" by (cases x)
  from Cons.prems(3) x obtain t where
    t: "replace_images recognized L (update_at q (\<lambda>old. Str t) cur) = Inr tag1"
    by (auto split: option.splits)
  have "edited True u (update_at q (\<lambda>old. Str t) cur)"
  proof (rule edited_update_at[OF Cons.prems(1)])
    fix w w'
    assume "subtree u q = Some w"
    then obtain a cs where "w = Tag (asc ''img'') a cs"
      using Cons.prems(2)[of q d w] x by auto
    then show "edited True w (Str t)" by simp
  qed
  moreover have "\<exists>a cs. w = Tag (asc ''img'') a cs"
    if "(q', d') \<in> set L" "subtree u q' = Some w" for q' d' w
    using Cons.prems(2)[of q' d' w] that by simp
  ultimately show ?case
    using t by (rule Cons.IH)
qed

lemma part_edited:
  assumes "edited True u c"
    and "priv_get_problem_part E self (Some c) recognize_text = Inr (part, tag1)"
  shows "edited True u tag1"
proof (cases recognize_text)
  case False
  with assms show ?thesis
    by (auto simp: priv_get_problem_part_def Let_def split: sum.splits prod.splits)
next
  case True
  with assms(2) obtain recognized where
    r: "replace_images recognized (find_all c (asc ''img'') (Some (asc ''tex''))) c = Inr tag1"
    by (auto simp: priv_get_problem_part_def Let_def split: sum.splits prod.splits)
  show ?thesis
  proof (rule replace_images_edited[OF assms(1) _ r])
    fix q d w
    assume "(q, d) \<in> set (find_all c (asc ''img'') (Some (asc ''tex'')))" "subtree u q = Some w"
    then have "subtree c q = Some d" "\<exists>a cs. d = Tag (asc ''img'') a cs"
      using find_all_subtree[of q d c] matches_TagD by blast+
    with edited_subtree_back[OF assms(1), of q d] \<open>subtree u q = Some w\<close>
    show "\<exists>a cs. w = Tag (asc ''img'') a cs"
      using edited_Tag_back by fastforce
  qed
qed

lemma update_at_part_edited:
  assumes "edited True doc cur" and "subtree cur p = Some c"
    and "priv_get_problem_part E self (Some c) recognize_text = Inr (part, tag1)"
  shows "edited True doc (update_at p (\<lambda>old. tag1) cur)"
proof -
  from edited_subtree_back[OF assms(1,2)] obtain u where
    u: "subtree doc p = Some u" "edited True u c"
    by blast
  have "edited True u tag1" by (rule part_edited[OF u(2) assms(3)])
  with u(1) show ?thesis
    by (intro edited_update_at[OF assms(1)]) simp
qed

lemma condition_expr_edited:
  assumes "edited True doc doc1" and "condition_expr E self doc1 recognize_text = Inr (part, doc2)"
  shows "edited True doc doc2"
proof (cases "find doc1 (asc ''div'') (Some (asc ''pbody''))")
  case None
  with assms(2) show ?thesis
    by (simp add: condition_expr_def priv_get_problem_part_def)
next
  case (Some x)
  obtain cp c where x: "x = (cp, c)" by (cases x)
  with Some assms(2) obtain tag1 where
    p: "priv_get_problem_part E self (Some c) recognize_text = Inr (part, tag1)"
    and d: "doc2 = update_at cp (\<lambda>old. tag1) doc1"
    by (auto simp: condition_expr_def split: sum.splits)
  have "subtree doc1 cp = Some c"
    using find_subtree Some x by blast
  from update_at_part_edited[OF assms(1) this p] d show ?thesis by simp
qed

lemma solution_tag_expr_subtree:
  "solution_tag_expr b = Inr (sp, stag) \<Longrightarrow> subtree b sp = Some stag"
proof -
  assume a: "solution_tag_expr b = Inr (sp, stag)"
  show ?thesis
  proof (cases "find b (asc ''div'') (Some (asc ''solution''))")
    case (Some r)
    with a show ?thesis using find_subtree[of b _ _ sp stag] by (simp add: solution_tag_expr_def)
  next
    case None
    with a have "(sp, stag) \<in> set (find_all b (asc ''div'') (Some (asc ''pbody'')))"
      by (auto simp: solution_tag_expr_def split: list.splits)
    then show ?thesis using find_all_subtree by blast
  qed
qed


text \<open>What a successful call has gone through.\<close>

lemma get_problem_by_id_body_Inr:
  assumes "get_problem_by_id_body E pid recognize_text self = Inr r"
  obtains page bp block block1 tid c s a where
    "priv_get E self (asc ''/problem?id='' @ str_int pid) None [] = Inr page"
    "find (parse_html E page) (asc ''div'') (Some (asc ''prob_maindiv'')) = Some (bp, block)"
    "rewrite_srcs E self (find_all block (asc ''img'') None) block = Inr block1"
    "try_except [IndexError, AttributeError, ValueError] (topic_id_expr E block1) = Inr tid"
    "try_except [IndexError, AttributeError]
       (condition_expr E self (update_at bp (\<lambda>old. block1) (parse_html E page)) recognize_text) = Inr c"
    "try_except [IndexError, AttributeError]
       (solution_expr E self
          (case c of None \<Rightarrow> update_at bp (\<lambda>old. block1) (parse_html E page) | Some (part, d) \<Rightarrow> d)
          bp recognize_text) = Inr s"
    "try_except [IndexError, AttributeError]
       (answer_expr (node_at
          (case s of
             None \<Rightarrow> (case c of None \<Rightarrow> update_at bp (\<lambda>old. block1) (parse_html E page)
                       | Some (part, d) \<Rightarrow> d)
           | Some (part, d) \<Rightarrow> d) bp)) = Inr a"
    "analogs_expr E (node_at
          (case s of
             None \<Rightarrow> (case c of None \<Rightarrow> update_at bp (\<lambda>old. block1) (parse_html E page)
                       | Some (part, d) \<Rightarrow> d)
           | Some (part, d) \<Rightarrow> d) bp) pid = Inr (analogs r)"
    "condition r = map_option fst c" "solution r = map_option fst s"
    "answer r = (case a of None \<Rightarrow> [] | Some t \<Rightarrow> t)" "topic_id r = tid"
  using assms
  unfolding get_problem_by_id_body_def Let_def
  by (auto split: sum.splits option.splits prod.splits)


subsection \<open>The markup of a part\<close>

lemma part_not_recognized:
  "priv_get_problem_part E self (Some tag) False
   = Inr (\<lparr>part_text = [], html = to_str E tag,
           image_links = add_links (find_all tag (asc ''img'') None) (tex_links tag)\<rparr>, tag)"
  by (simp add: priv_get_problem_part_def tex_links_def)

lemma condition_expr_not_recognized:
  "condition_expr E self d False
   = (case find d (asc ''div'') (Some (asc ''pbody'')) of
        None \<Rightarrow> Inl AttributeError
      | Some (cp, c) \<Rightarrow>
          Inr (\<lparr>part_text = [], html = to_str E c,
                image_links = add_links (find_all c (asc ''img'') None) (tex_links c)\<rparr>, d))"
proof (cases "find d (asc ''div'') (Some (asc ''pbody''))")
  case None
  then show ?thesis by (simp add: condition_expr_def priv_get_problem_part_def)
next
  case (Some x)
  obtain cp c where x: "x = (cp, c)" by (cases x)
  with Some have "subtree d cp = Some c" using find_subtree by blast
  then have "update_at cp (\<lambda>old. c) d = d" by (simp add: update_at_same)
  with Some x show ?thesis by (simp add: condition_expr_def part_not_recognized)
qed


lemma solution_tag_expr_error: "solution_tag_expr b = Inl e \<Longrightarrow> e = IndexError"
  by (auto simp: solution_tag_expr_def split: option.splits list.splits)







subsection \<open>Where the condition and the solution are looked for\<close>

lemma subtree_update_at_disjoint:
  "\<not> prefix p q \<Longrightarrow> \<not> prefix q p \<Longrightarrow> subtree (update_at p f t) q = subtree t q"
proof (induction p arbitrary: q t)
  case Nil
  then show ?case by simp
next
  case (Cons i p)
  from Cons.prems(2) obtain j q' where q: "q = j # q'" by (cases q) auto
  show ?case
  proof (cases t)
    case (Tag n a cs)
    show ?thesis
    proof (cases "i = j")
      case True
      with Cons.prems q have "\<not> prefix p q'" "\<not> prefix q' p" by simp_all
      from Cons.IH[OF this] True q Tag show ?thesis by simp
    next
      case False
      with q Tag show ?thesis by simp
    qed
  qed (simp_all add: q)
qed

lemma try_except_part:
  assumes "try_except [IndexError, AttributeError] x = Inr c"
  shows "map_option fst c = (case x of Inl e \<Rightarrow> None | Inr (part, d) \<Rightarrow> Some part)"
  using assms by (auto simp: try_except_def split: sum.splits if_splits)

lemma part_edited_False:
  assumes "priv_get_problem_part E self (Some c) False = Inr (part, tag1)"
  shows "tag1 = c"
  using assms by (simp add: part_not_recognized)

lemma after_condition_edited:
  assumes "subtree doc bp = Some block"
    and "find doc (asc ''div'') (Some (asc ''prob_maindiv'')) = Some (bp, block)"
  shows "edited recognize_text doc (after_condition E self doc recognize_text)"
proof -
  let ?doc1 = "rewritten E self doc"
  have doc1: "?doc1 = update_at bp (\<lambda>old. rewrite_below E self block) doc"
    using assms(2) by (simp add: rewritten_def)
  have ed: "edited k doc ?doc1" for k
    unfolding doc1 using assms(1)
    by (intro edited_update_at[OF edited_refl]) (simp add: edited_rewrite_below)
  show ?thesis
  proof (cases recognize_text)
    case False
    have "after_condition E self doc False = ?doc1"
      by (simp add: after_condition_def condition_expr_not_recognized split: option.splits)
    with False ed show ?thesis by simp
  next
    case True
    show ?thesis
    proof (cases "condition_expr E self ?doc1 True")
      case (Inl e)
      with True ed show ?thesis by (simp add: after_condition_def)
    next
      case (Inr x)
      obtain part d where x: "x = (part, d)" by (cases x)
      from condition_expr_edited[OF ed] Inr x have "edited True doc d" by simp
      with True Inr x show ?thesis by (simp add: after_condition_def)
    qed
  qed
qed

lemma solution_tag_expr_position:
  assumes "edited k block b2" and "k \<longrightarrow> void_imgs block"
  shows "map_sum (\<lambda>e. ()) fst (solution_tag_expr b2)
         = (case solution_position block of None \<Rightarrow> Inl () | Some sp \<Rightarrow> Inr sp)"
proof -
  have d: "k \<longrightarrow> asc ''div'' \<noteq> asc ''img''" by (simp add: asc_def)
  have f: "rel_option (\<lambda>(p, d) (p', d'). p = p' \<and> edited k d d')
      (find block (asc ''div'') (Some (asc ''solution''))) (find b2 (asc ''div'') (Some (asc ''solution'')))"
    by (rule edited_find[OF assms d])
  have a: "list_all2 (\<lambda>(p, d) (p', d'). p = p' \<and> edited k d d')
      (find_all block (asc ''div'') (Some (asc ''pbody''))) (find_all b2 (asc ''div'') (Some (asc ''pbody'')))"
    by (rule edited_find_all[OF assms d])
  show ?thesis
  proof (cases "find block (asc ''div'') (Some (asc ''solution''))")
    case (Some x)
    with f show ?thesis
      by (auto simp: solution_tag_expr_def solution_position_def option_rel_Some1)
  next
    case None
    with f have n2: "find b2 (asc ''div'') (Some (asc ''solution'')) = None" by simp
    show ?thesis
    proof (cases "find_all block (asc ''div'') (Some (asc ''pbody''))")
      case Nil
      with a None n2 show ?thesis
        by (simp add: solution_tag_expr_def solution_position_def)
    next
      case (Cons x xs)
      show ?thesis
      proof (cases xs)
        case Nil
        with a None n2 Cons show ?thesis
          by (auto simp: solution_tag_expr_def solution_position_def list_all2_Cons1)
      next
        case (Cons y ys)
        with a None n2 \<open>find_all block (asc ''div'') (Some (asc ''pbody'')) = x # xs\<close>
        show ?thesis
          by (auto simp: solution_tag_expr_def solution_position_def list_all2_Cons1)
      qed
    qed
  qed
qed

text \<open>
  C10. For every successful call: the condition is built from the first body block of
  the whole soup, at the position it has in the parsed page, whether or not it lies in
  the problem block; when this position is apart from the problem block, the condition
  is built from the block as parsed, which holds nothing of the problem block. The
  solution is built from the problem block alone: from the block at the position of its
  solution block or, without one, of the second of its body blocks, as that block
  stands when the condition has been built; without either there is no solution,
  whatever body blocks the page has outside. (When text is recognised this supposes the
  images of the page void.) Without recognition the condition leaves the soup as the
  loop over the images left it.
\<close>

theorem condition_from_whole_document:
  assumes "get_problem_by_id_body E pid recognize_text self = Inr r"
    and "priv_get E self (asc ''/problem?id='' @ str_int pid) None [] = Inr page"
    and "find (parse_html E page) (asc ''div'') (Some (asc ''prob_maindiv'')) = Some (bp, block)"
  shows "condition r
         = (case find (parse_html E page) (asc ''div'') (Some (asc ''pbody'')) of
              None \<Rightarrow> None
            | Some (cp, ctag) \<Rightarrow>
                part_of E self (node_at (rewritten E self (parse_html E page)) cp) recognize_text)
       \<and> (\<forall>cp ctag. find (parse_html E page) (asc ''div'') (Some (asc ''pbody'')) = Some (cp, ctag)
              \<and> \<not> prefix bp cp \<and> \<not> prefix cp bp
            \<longrightarrow> condition r = part_of E self ctag recognize_text)
       \<and> ((recognize_text \<longrightarrow> void_imgs (parse_html E page))
            \<longrightarrow> solution r
                = (case solution_position block of
                     None \<Rightarrow> None
                   | Some sp \<Rightarrow>
                       part_of E self
                         (node_at (after_condition E self (parse_html E page) recognize_text) (bp @ sp))
                         recognize_text))
       \<and> (\<not> recognize_text
            \<longrightarrow> after_condition E self (parse_html E page) recognize_text
                = rewritten E self (parse_html E page))"
proof -
  let ?doc = "parse_html E page"
  let ?doc1 = "rewritten E self ?doc"
  let ?doc2 = "after_condition E self ?doc recognize_text"
  from assms(1) obtain page' bp' block' block1 c s where b:
    "priv_get E self (asc ''/problem?id='' @ str_int pid) None [] = Inr page'"
    "find (parse_html E page') (asc ''div'') (Some (asc ''prob_maindiv'')) = Some (bp', block')"
    "rewrite_srcs E self (find_all block' (asc ''img'') None) block' = Inr block1"
    "try_except [IndexError, AttributeError]
       (condition_expr E self (update_at bp' (\<lambda>old. block1) (parse_html E page')) recognize_text) = Inr c"
    "try_except [IndexError, AttributeError]
       (solution_expr E self
          (case c of None \<Rightarrow> update_at bp' (\<lambda>old. block1) (parse_html E page') | Some (part, d) \<Rightarrow> d)
          bp' recognize_text) = Inr s"
    "condition r = map_option fst c" "solution r = map_option fst s"
    by (rule get_problem_by_id_body_Inr)
  from b(1,2) assms(2,3) have same: "page' = page" "bp' = bp" "block' = block" by simp_all
  have block1: "block1 = rewrite_below E self block"
    using rewrite_srcs_exact b(3) same by blast
  have at_bp: "subtree ?doc bp = Some block"
    using find_subtree assms(3) by blast
  have doc1: "update_at bp (\<lambda>old. block1) ?doc = ?doc1"
    using assms(3) block1 by (simp add: rewritten_def)
  have ed: "edited k ?doc ?doc1" for k
    unfolding doc1[symmetric] block1 using at_bp
    by (intro edited_update_at[OF edited_refl]) (simp add: edited_rewrite_below)
  \<comment> \<open>the first body block of the soup keeps its position\<close>
  have rel: "rel_option (\<lambda>(p, d) (p', d'). p = p' \<and> edited False d d')
          (find ?doc (asc ''div'') (Some (asc ''pbody''))) (find ?doc1 (asc ''div'') (Some (asc ''pbody'')))"
    by (rule edited_find[OF ed]) simp_all
  have cond: "condition r
         = (case find ?doc (asc ''div'') (Some (asc ''pbody'')) of
              None \<Rightarrow> None
            | Some (cp, ctag) \<Rightarrow> part_of E self (node_at ?doc1 cp) recognize_text)"
  proof (cases "find ?doc (asc ''div'') (Some (asc ''pbody''))")
    case None
    with rel have "find ?doc1 (asc ''div'') (Some (asc ''pbody'')) = None" by simp
    then have "condition_expr E self ?doc1 recognize_text = Inl AttributeError"
      by (simp add: condition_expr_def priv_get_problem_part_def)
    with try_except_part[OF b(4)] b(6) None show ?thesis
      unfolding same doc1 by simp
  next
    case (Some x)
    obtain cp ctag where x: "x = (cp, ctag)" by (cases x)
    with Some rel obtain c1 where c1: "find ?doc1 (asc ''div'') (Some (asc ''pbody'')) = Some (cp, c1)"
      by (auto simp: option_rel_Some1)
    then have "subtree ?doc1 cp = Some c1" using find_subtree by blast
    then have node: "node_at ?doc1 cp = c1" by (simp add: node_at_def)
    have "condition r = part_of E self c1 recognize_text"
      using try_except_part[OF b(4)] b(6) c1 unfolding same doc1
      by (auto simp: condition_expr_def part_of_def split: sum.splits)
    with Some x node show ?thesis by simp
  qed
  \<comment> \<open>apart from the problem block, it is the block of the parsed page\<close>
  have apart: "condition r = part_of E self ctag recognize_text"
    if "find ?doc (asc ''div'') (Some (asc ''pbody'')) = Some (cp, ctag)"
      "\<not> prefix bp cp" "\<not> prefix cp bp" for cp ctag
  proof -
    have "subtree ?doc1 cp = subtree ?doc cp"
      unfolding doc1[symmetric] by (rule subtree_update_at_disjoint[OF that(2,3)])
    with find_subtree[OF that(1)] have "node_at ?doc1 cp = ctag" by (simp add: node_at_def)
    with cond that(1) show ?thesis by simp
  qed
  \<comment> \<open>the soup when the solution is looked for\<close>
  have doc2: "(case c of None \<Rightarrow> ?doc1 | Some (part, d) \<Rightarrow> d) = ?doc2"
    using b(4) unfolding same doc1
    by (auto simp: after_condition_def try_except_def split: sum.splits if_splits)
  have plain: "?doc2 = ?doc1" if "\<not> recognize_text"
    using that
    by (simp add: after_condition_def condition_expr_not_recognized split: option.splits)
  \<comment> \<open>the solution is built from the problem block alone\<close>
  have sol: "solution r
      = (case solution_position block of
           None \<Rightarrow> None
         | Some sp \<Rightarrow> part_of E self (node_at ?doc2 (bp @ sp)) recognize_text)"
    if v: "recognize_text \<longrightarrow> void_imgs ?doc"
  proof -
    have ed2: "edited recognize_text ?doc ?doc2"
      by (rule after_condition_edited[OF at_bp assms(3)])
    from edited_subtree[OF ed2 v at_bp] obtain b2 where
      b2: "subtree ?doc2 bp = Some b2" "edited recognize_text block b2"
      by blast
    have vb: "recognize_text \<longrightarrow> void_imgs block"
      using void_imgs_subtree[OF _ at_bp] v by blast
    note pos = solution_tag_expr_position[OF b2(2) vb]
    have node: "node_at ?doc2 bp = b2" using b2(1) by (simp add: node_at_def)
    show ?thesis
    proof (cases "solution_position block")
      case None
      with pos obtain e where "solution_tag_expr b2 = Inl e"
        by (cases "solution_tag_expr b2") auto
      then have "solution_tag_expr b2 = Inl IndexError"
        using solution_tag_expr_error by blast
      then have "solution_expr E self ?doc2 bp recognize_text = Inl IndexError"
        by (simp add: solution_expr_def node)
      with try_except_part[OF b(5)] b(7) None show ?thesis
        unfolding same doc1 doc2 by simp
    next
      case (Some sp)
      with pos obtain stag where st: "solution_tag_expr b2 = Inr (sp, stag)"
        by (cases "solution_tag_expr b2") auto
      then have "subtree b2 sp = Some stag" by (rule solution_tag_expr_subtree)
      with b2(1) have "node_at ?doc2 (bp @ sp) = stag"
        by (simp add: node_at_def subtree_append)
      moreover have "solution r = part_of E self stag recognize_text"
        using try_except_part[OF b(5)] b(7) st unfolding same doc1 doc2
        by (auto simp: solution_expr_def node part_of_def split: sum.splits)
      ultimately show ?thesis using Some by simp
    qed
  qed
  from cond apart sol plain show ?thesis by blast
qed

text \<open>
  The page with a banner block before the problem block, which holds two body blocks:
  the condition is the banner, and the solution is the second body block of the problem
  block, not the second of the page.
\<close>

theorem condition_from_whole_document_witness:
  "(case fst (get_problem_by_id (site (\<lambda>body. page_outside_body)) 1 False None None math_ege) of
      Inl e \<Rightarrow> False
    | Inr r \<Rightarrow>
        map_option html (condition r) = Some (render (el ''div'' ''pbody'' [Str (asc ''Banner'')]))
        \<and> map_option html (solution r) = Some (render (el ''div'' ''pbody'' [Str (asc ''Sol'')])))"
proof -
  let ?E = "site (\<lambda>body. page_outside_body)"
  let ?block = "el ''div'' ''prob_maindiv''
                  [el ''div'' ''pbody'' [Str (asc ''2+2'')], el ''div'' ''pbody'' [Str (asc ''Sol'')],
                   el ''div'' ''minor'' []]"
  let ?banner = "el ''div'' ''pbody'' [Str (asc ''Banner'')]"
  let ?sol = "el ''div'' ''pbody'' [Str (asc ''Sol'')]"
  obtain r where r: "get_problem_by_id_body ?E 1 False math_ege = Inr r"
    by (simp add: problem_defs tree_defs string_defs site_defs page_outside_body_def)
  have page: "priv_get ?E math_ege (asc ''/problem?id='' @ str_int 1) None [] = Inr []"
    by (simp add: priv_get_def site_def)
  have doc: "parse_html ?E [] = page_outside_body"
    by (simp add: site_def)
  have blk: "find (parse_html ?E []) (asc ''div'') (Some (asc ''prob_maindiv'')) = Some ([0, 0, 1], ?block)"
    unfolding doc by (simp add: tree_defs string_defs site_defs page_outside_body_def)
  have first: "find (parse_html ?E []) (asc ''div'') (Some (asc ''pbody'')) = Some ([0, 0, 0], ?banner)"
    unfolding doc by (simp add: tree_defs string_defs site_defs page_outside_body_def)
  have apart: "\<not> prefix [0, 0, 1] [0, 0, 0::nat]" "\<not> prefix [0, 0, 0] [0, 0, 1::nat]"
    by simp_all
  have pos: "solution_position ?block = Some [1]"
    by (simp add: solution_position_def tree_defs string_defs site_defs)
  have node: "node_at (rewritten ?E math_ege (parse_html ?E [])) ([0, 0, 1] @ [1]) = ?sol"
    unfolding doc
    by (simp add: rewritten_def rewrite_below_def tree_defs string_defs site_defs
          page_outside_body_def)
  have pb: "part_of ?E math_ege ?banner False
      = Some \<lparr>part_text = [], html = render ?banner, image_links = []\<rparr>"
    by (simp add: part_of_def priv_get_problem_part_def tree_defs string_defs site_defs)
  have ps: "part_of ?E math_ege ?sol False
      = Some \<lparr>part_text = [], html = render ?sol, image_links = []\<rparr>"
    by (simp add: part_of_def priv_get_problem_part_def tree_defs string_defs site_defs)
  note main = condition_from_whole_document[OF r page blk]
  from main first apart have "condition r = part_of ?E math_ege ?banner False" by blast
  then have c: "map_option html (condition r) = Some (render ?banner)"
    by (simp add: pb)
  from main have "after_condition ?E math_ege (parse_html ?E []) False
      = rewritten ?E math_ege (parse_html ?E [])" by blast
  moreover from main have "solution r
      = (case solution_position ?block of
           None \<Rightarrow> None
         | Some sp \<Rightarrow>
             part_of ?E math_ege
               (node_at (after_condition ?E math_ege (parse_html ?E []) False) ([0, 0, 1] @ sp)) False)"
    by blast
  ultimately have "solution r = part_of ?E math_ege ?sol False"
    using pos node by simp
  then have s: "map_option html (solution r) = Some (render ?sol)"
    by (simp add: ps)
  from c s r show ?thesis
    by (simp add: get_problem_by_id_def handle_params_def)
qed

subsection \<open>The related problems\<close>





















text \<open>
  Why the links are taken of the form \<^verbatim>\<open>/problem?id=\<close> and a target: removing the
  path from \<^verbatim>\<open>1/problem?id=2\<close> leaves 12, which the text of the link does not hold.
\<close>

lemma glued_link_gives_queried_id:
  "map_sum id analogs
     (fst (get_problem_by_id (site (\<lambda>body. page_glued_link)) 12 False None None math_ege))
   = Inr [12]"
  by (simp add: problem_defs tree_defs string_defs site_defs page_glued_link_def)









end
